theory Spec2Isabelle
  imports Main
begin

section \<open>Constants and values\<close>

text \<open>
  The playfield of \<^verbatim>\<open>src/app/page.tsx\<close>: \<^verbatim>\<open>COLS = 10\<close>, \<^verbatim>\<open>ROWS = 20\<close>.
\<close>

definition COLS :: nat where
  "COLS = 10"

definition ROWS :: nat where
  "ROWS = 20"

text \<open>
  A cell of a \<^verbatim>\<open>number[][]\<close> is a number, modelled as an integer (the program only
  stores 0 and 1), or \<^verbatim>\<open>undefined\<close>, modelled as \<open>None\<close>: reading an array outside
  its indices gives \<^verbatim>\<open>undefined\<close>, and so does a slot that an assignment beyond the
  end of an array leaves empty. Every array operation of the program treats an empty slot
  and \<^verbatim>\<open>undefined\<close> alike.
\<close>

type_synonym cell = "int option"

type_synonym matrix = "cell list list"

datatype error = TypeError

record position =
  x :: int
  y :: int

text \<open>\<^verbatim>\<open>if (v)\<close>: \<^verbatim>\<open>undefined\<close> and 0 are falsy, every other number is truthy.\<close>

definition truthy :: "cell \<Rightarrow> bool" where
  "truthy v = (case v of None \<Rightarrow> False | Some n \<Rightarrow> n \<noteq> 0)"

text \<open>\<^verbatim>\<open>xs[i]\<close> on an array: \<^verbatim>\<open>undefined\<close> unless \<open>i\<close> is one of its indices.\<close>

definition at :: "'a list \<Rightarrow> int \<Rightarrow> 'a option" where
  "at xs i = (if 0 \<le> i \<and> i < int (length xs) then Some (xs ! nat i) else None)"

text \<open>\<^verbatim>\<open>row[j]\<close> on a row of cells.\<close>

definition cellOf :: "cell list \<Rightarrow> int \<Rightarrow> cell" where
  "cellOf row j = (case at row j of None \<Rightarrow> None | Some v \<Rightarrow> v)"

text \<open>
  \<^verbatim>\<open>grid[i]?.[j]\<close>: the optional chaining stops at an \<^verbatim>\<open>undefined\<close> row and gives
  \<^verbatim>\<open>undefined\<close>.
\<close>

definition cellAt :: "matrix \<Rightarrow> int \<Rightarrow> int \<Rightarrow> cell" where
  "cellAt g i j = (case at g i of None \<Rightarrow> None | Some row \<Rightarrow> cellOf row j)"

section \<open>Shape table\<close>

text \<open>The keys \<^verbatim>\<open>'0'\<close>, \<^verbatim>\<open>I\<close>, \<^verbatim>\<open>O\<close>, ... of the table, prefixed with \<open>K\<close>.\<close>

datatype TetrominoKey = K0 | KI | KO | KT | KS | KZ | KJ | KL

definition nums :: "int list list \<Rightarrow> matrix" where
  "nums m = map (map Some) m"

fun TETROMINOS :: "TetrominoKey \<Rightarrow> matrix" where
  "TETROMINOS K0 = nums [[0]]"
| "TETROMINOS KI = nums [[1, 1, 1, 1]]"
| "TETROMINOS KO = nums [[1, 1], [1, 1]]"
| "TETROMINOS KT = nums [[0, 1, 0], [1, 1, 1]]"
| "TETROMINOS KS = nums [[0, 1, 1], [1, 1, 0]]"
| "TETROMINOS KZ = nums [[1, 1, 0], [0, 1, 1]]"
| "TETROMINOS KJ = nums [[1, 0, 0], [1, 1, 1]]"
| "TETROMINOS KL = nums [[0, 0, 1], [1, 1, 1]]"

definition tetrominos :: "TetrominoKey list" where
  "tetrominos = [KI, KO, KT, KS, KZ, KJ, KL]"

text \<open>
  \<^verbatim>\<open>randomTetromino\<close>: the argument \<open>k\<close> is the value of
  \<^verbatim>\<open>Math.floor(Math.random() * tetrominos.length)\<close>, which lies in \<open>0..6\<close> because
  \<^verbatim>\<open>Math.random()\<close> lies in \<open>[0, 1)\<close>.
\<close>

definition randomTetromino :: "nat \<Rightarrow> matrix" where
  "randomTetromino k = TETROMINOS (tetrominos ! k)"

definition createGrid :: matrix where
  "createGrid = replicate ROWS (replicate COLS (Some 0))"

text \<open>The spawn coordinates \<^verbatim>\<open>{ x: Math.floor(COLS / 2) - 1, y: 0 }\<close>.\<close>

definition spawn :: position where
  "spawn = \<lparr>x = int (COLS div 2) - 1, y = 0\<rparr>"

section \<open>Collision\<close>

text \<open>
  The condition of the \<^verbatim>\<open>if\<close> in \<^verbatim>\<open>isColliding\<close>, for a filled cell that lands on
  row \<open>newY\<close> and column \<open>newX\<close>.
\<close>

definition blocked :: "matrix \<Rightarrow> int \<Rightarrow> int \<Rightarrow> bool" where
  "blocked g newY newX =
     (newY \<ge> int ROWS \<or> newX < 0 \<or> newX \<ge> int COLS \<or> (newY \<ge> 0 \<and> truthy (cellAt g newY newX)))"

text \<open>The inner loop over the cells of row \<open>r\<close> of the piece, from column \<open>c\<close> on.\<close>

fun isColliding_row :: "matrix \<Rightarrow> cell list \<Rightarrow> position \<Rightarrow> nat \<Rightarrow> nat \<Rightarrow> bool" where
  "isColliding_row g [] pos r c = False"
| "isColliding_row g (v # vs) pos r c =
     (if truthy v \<and> blocked g (y pos + int r) (x pos + int c) then True
      else isColliding_row g vs pos r (Suc c))"

text \<open>The outer loop over the rows of the piece, from row \<open>r\<close> on.\<close>

fun isColliding_rows :: "matrix \<Rightarrow> matrix \<Rightarrow> position \<Rightarrow> nat \<Rightarrow> bool" where
  "isColliding_rows g [] pos r = False"
| "isColliding_rows g (row # rows) pos r =
     (if isColliding_row g row pos r 0 then True
      else isColliding_rows g rows pos (Suc r))"

definition isColliding :: "matrix \<Rightarrow> matrix \<Rightarrow> position \<Rightarrow> bool" where
  "isColliding g t pos = isColliding_rows g t pos 0"

section \<open>Collision, with the faults written out\<close>

text \<open>
  \<^verbatim>\<open>isColliding\<close> once more, as the source writes it: loops over indices, and every
  property access as JavaScript evaluates it. \<^verbatim>\<open>a.length\<close> and \<^verbatim>\<open>a[i]\<close> raise a
  \<^verbatim>\<open>TypeError\<close> when \<open>a\<close> is \<^verbatim>\<open>undefined\<close>; \<^verbatim>\<open>a?.[i]\<close> gives \<^verbatim>\<open>undefined\<close> there.
\<close>

definition lengthOf :: "cell list option \<Rightarrow> error + nat" where
  "lengthOf a = (case a of None \<Rightarrow> Inl TypeError | Some row \<Rightarrow> Inr (length row))"

definition member :: "cell list option \<Rightarrow> int \<Rightarrow> error + cell" where
  "member a i = (case a of None \<Rightarrow> Inl TypeError | Some row \<Rightarrow> Inr (cellOf row i))"

definition memberOpt :: "cell list option \<Rightarrow> int \<Rightarrow> error + cell" where
  "memberOpt a i = (case a of None \<Rightarrow> Inr None | Some row \<Rightarrow> Inr (cellOf row i))"

text \<open>The lookup \<^verbatim>\<open>grid[newY]?.[newX]\<close>.\<close>

definition probe :: "matrix \<Rightarrow> int \<Rightarrow> int \<Rightarrow> error + cell" where
  "probe g newY newX = memberOpt (at g newY) newX"

text \<open>
  The condition of the \<^verbatim>\<open>if\<close>, its disjuncts evaluated from the left and the lookup,
  here the parameter \<open>look\<close>, only reached when the three comparisons before it are false
  and \<open>newY \<ge> 0\<close>. With \<open>look\<close> a parameter one can say where the lookup is consulted.
\<close>

definition blocked_with :: "(int \<Rightarrow> int \<Rightarrow> error + cell) \<Rightarrow> int \<Rightarrow> int \<Rightarrow> error + bool" where
  "blocked_with look newY newX =
     (if newY \<ge> int ROWS then Inr True
      else if newX < 0 then Inr True
      else if newX \<ge> int COLS then Inr True
      else if newY \<ge> 0
        then (case look newY newX of Inl e \<Rightarrow> Inl e | Inr v \<Rightarrow> Inr (truthy v))
        else Inr False)"

text \<open>
  The inner loop \<^verbatim>\<open>for (let c = 0; c < tetromino[r].length; c++)\<close> from \<open>c\<close> on;
  \<open>Inr False\<close> when it ends without \<^verbatim>\<open>return true\<close>.
\<close>

function isColliding_cols ::
  "(int \<Rightarrow> int \<Rightarrow> error + cell) \<Rightarrow> matrix \<Rightarrow> position \<Rightarrow> nat \<Rightarrow> nat \<Rightarrow> error + bool" where
  "isColliding_cols look t pos r c =
     (case lengthOf (at t (int r)) of
        Inl e \<Rightarrow> Inl e
      | Inr n \<Rightarrow>
          if c < n
          then (case member (at t (int r)) (int c) of
                  Inl e \<Rightarrow> Inl e
                | Inr v \<Rightarrow>
                    if truthy v
                    then (case blocked_with look (y pos + int r) (x pos + int c) of
                            Inl e \<Rightarrow> Inl e
                          | Inr b \<Rightarrow>
                              if b then Inr True
                              else isColliding_cols look t pos r (Suc c))
                    else isColliding_cols look t pos r (Suc c))
          else Inr False)"
  by pat_completeness auto
termination
  by (relation "measure (\<lambda>(look, t, pos, r, c).
        (case at t (int r) of None \<Rightarrow> 0 | Some row \<Rightarrow> length row) - c)")
     (auto simp: lengthOf_def split: option.splits)

declare isColliding_cols.simps [simp del]

text \<open>The outer loop \<^verbatim>\<open>for (let r = 0; r < tetromino.length; r++)\<close> from \<open>r\<close> on.\<close>

function isColliding_loop ::
  "(int \<Rightarrow> int \<Rightarrow> error + cell) \<Rightarrow> matrix \<Rightarrow> position \<Rightarrow> nat \<Rightarrow> error + bool" where
  "isColliding_loop look t pos r =
     (if r < length t
      then (case isColliding_cols look t pos r 0 of
              Inl e \<Rightarrow> Inl e
            | Inr b \<Rightarrow> if b then Inr True else isColliding_loop look t pos (Suc r))
      else Inr False)"
  by pat_completeness auto
termination
  by (relation "measure (\<lambda>(look, t, pos, r). length t - r)") auto

declare isColliding_loop.simps [simp del]

definition isColliding_js :: "matrix \<Rightarrow> matrix \<Rightarrow> position \<Rightarrow> error + bool" where
  "isColliding_js g t pos = isColliding_loop (probe g) t pos 0"

section \<open>Merging a piece into the grid\<close>

text \<open>
  \<^verbatim>\<open>row[j] = v\<close> on an array. At an index of the array the element is replaced; beyond
  its end the array grows, the slots in between staying empty. A negative \<open>j\<close> is not an
  array index: the assignment creates a property of that name on the array object, which
  neither \<^verbatim>\<open>length\<close>, the spread \<^verbatim>\<open>[...row]\<close>, \<^verbatim>\<open>some\<close>, \<^verbatim>\<open>forEach\<close> nor a read at
  an index sees, and the elements stay as they are.
\<close>

definition setCell :: "cell list \<Rightarrow> int \<Rightarrow> cell \<Rightarrow> cell list" where
  "setCell row j v =
     (if j < 0 then row
      else if j < int (length row) then row[nat j := v]
      else row @ replicate (nat j - length row) None @ [v])"

text \<open>
  \<^verbatim>\<open>newGrid[i][j] = v\<close>: when \<open>i\<close> is not an index of \<open>newGrid\<close>, \<^verbatim>\<open>newGrid[i]\<close> is
  \<^verbatim>\<open>undefined\<close> and the assignment to its property raises a \<^verbatim>\<open>TypeError\<close>.
\<close>

definition setAt :: "matrix \<Rightarrow> int \<Rightarrow> int \<Rightarrow> cell \<Rightarrow> error + matrix" where
  "setAt g i j v =
     (case at g i of
        None \<Rightarrow> Inl TypeError
      | Some row \<Rightarrow> Inr (g[nat i := setCell row j v]))"

text \<open>
  The inner \<^verbatim>\<open>row.forEach((cell, c) => ...)\<close> of \<^verbatim>\<open>merge\<close>, from column \<open>c\<close> on; an
  exception ends the whole call.
\<close>

fun merge_row :: "matrix \<Rightarrow> cell list \<Rightarrow> position \<Rightarrow> nat \<Rightarrow> nat \<Rightarrow> error + matrix" where
  "merge_row newGrid [] pos r c = Inr newGrid"
| "merge_row newGrid (v # vs) pos r c =
     (if truthy v \<and> y pos + int r < int ROWS \<and> x pos + int c < int COLS
      then (case setAt newGrid (y pos + int r) (x pos + int c) v of
              Inl e \<Rightarrow> Inl e
            | Inr newGrid' \<Rightarrow> merge_row newGrid' vs pos r (Suc c))
      else merge_row newGrid vs pos r (Suc c))"

text \<open>The outer \<^verbatim>\<open>tetromino.forEach((row, r) => ...)\<close>, from row \<open>r\<close> on.\<close>

fun merge_rows :: "matrix \<Rightarrow> matrix \<Rightarrow> position \<Rightarrow> nat \<Rightarrow> error + matrix" where
  "merge_rows newGrid [] pos r = Inr newGrid"
| "merge_rows newGrid (row # rows) pos r =
     (case merge_row newGrid row pos r 0 of
        Inl e \<Rightarrow> Inl e
      | Inr newGrid' \<Rightarrow> merge_rows newGrid' rows pos (Suc r))"

text \<open>
  \<^verbatim>\<open>merge\<close>: \<^verbatim>\<open>grid.map((row) => [...row])\<close> copies every row (an empty slot becomes
  \<^verbatim>\<open>undefined\<close>, both \<open>None\<close> here), then the two loops write into the copy.
\<close>

definition merge :: "matrix \<Rightarrow> matrix \<Rightarrow> position \<Rightarrow> error + matrix" where
  "merge g t pos = merge_rows (map (\<lambda>row. row) g) t pos 0"

section \<open>Merging, with the arrays in a store\<close>

text \<open>
  Arrays are objects: \<^verbatim>\<open>merge\<close> receives a reference to the grid, and whether it changes
  the caller's grid depends on which arrays it writes to. Here the row arrays live in a
  store: \<open>rowAt\<close> gives the elements of the array at an address and \<open>fresh\<close> is the first
  address not yet in use. A grid is the list of the addresses of its rows; \<^verbatim>\<open>merge\<close> builds
  a new outer array with \<^verbatim>\<open>map\<close> and assigns to elements of row arrays only, so outer
  arrays stay values. The piece is only read, and no array that is written (each one is
  new) can be one of its rows, so it is passed as a value too.
\<close>

record store =
  rowAt :: "nat \<Rightarrow> cell list"
  fresh :: nat

text \<open>The matrix that a list of row addresses stands for.\<close>

definition view :: "store \<Rightarrow> nat list \<Rightarrow> matrix" where
  "view st g = map (rowAt st) g"

text \<open>\<^verbatim>\<open>[...row]\<close>: a new array with the elements of \<open>row\<close>.\<close>

definition copyRow :: "store \<Rightarrow> nat \<Rightarrow> store \<times> nat" where
  "copyRow st a =
     (st\<lparr>rowAt := (rowAt st)(fresh st := map (\<lambda>v. v) (rowAt st a)), fresh := Suc (fresh st)\<rparr>,
      fresh st)"

text \<open>\<^verbatim>\<open>grid.map((row) => [...row])\<close>: the addresses of the copies, in order.\<close>

fun copyRows :: "store \<Rightarrow> nat list \<Rightarrow> store \<times> nat list" where
  "copyRows st [] = (st, [])"
| "copyRows st (a # as) =
     (case copyRow st a of
        (st1, b) \<Rightarrow> (case copyRows st1 as of (st2, bs) \<Rightarrow> (st2, b # bs)))"

text \<open>\<^verbatim>\<open>newGrid[i][j] = v\<close> in the store; \<open>newRows\<close> are the elements of \<^verbatim>\<open>newGrid\<close>.\<close>

definition setAt_store :: "store \<Rightarrow> nat list \<Rightarrow> int \<Rightarrow> int \<Rightarrow> cell \<Rightarrow> error + store" where
  "setAt_store st newRows i j v =
     (case at newRows i of
        None \<Rightarrow> Inl TypeError
      | Some a \<Rightarrow> Inr (st\<lparr>rowAt := (rowAt st)(a := setCell (rowAt st a) j v)\<rparr>))"

text \<open>The two loops of \<^verbatim>\<open>merge\<close> and \<^verbatim>\<open>merge\<close> itself, writing to the store.\<close>

fun merge_row_store ::
  "store \<Rightarrow> nat list \<Rightarrow> cell list \<Rightarrow> position \<Rightarrow> nat \<Rightarrow> nat \<Rightarrow> error + store" where
  "merge_row_store st newRows [] pos r c = Inr st"
| "merge_row_store st newRows (v # vs) pos r c =
     (if truthy v \<and> y pos + int r < int ROWS \<and> x pos + int c < int COLS
      then (case setAt_store st newRows (y pos + int r) (x pos + int c) v of
              Inl e \<Rightarrow> Inl e
            | Inr st' \<Rightarrow> merge_row_store st' newRows vs pos r (Suc c))
      else merge_row_store st newRows vs pos r (Suc c))"

fun merge_rows_store ::
  "store \<Rightarrow> nat list \<Rightarrow> matrix \<Rightarrow> position \<Rightarrow> nat \<Rightarrow> error + store" where
  "merge_rows_store st newRows [] pos r = Inr st"
| "merge_rows_store st newRows (row # rows) pos r =
     (case merge_row_store st newRows row pos r 0 of
        Inl e \<Rightarrow> Inl e
      | Inr st' \<Rightarrow> merge_rows_store st' newRows rows pos (Suc r))"

definition merge_store ::
  "store \<Rightarrow> nat list \<Rightarrow> matrix \<Rightarrow> position \<Rightarrow> error + (store \<times> nat list)" where
  "merge_store st g t pos =
     (case copyRows st g of
        (st1, newRows) \<Rightarrow>
          (case merge_rows_store st1 newRows t pos 0 of
             Inl e \<Rightarrow> Inl e
           | Inr st2 \<Rightarrow> Inr (st2, newRows)))"

section \<open>Clearing rows\<close>

text \<open>\<^verbatim>\<open>row.some((cell) => cell === 0)\<close>.\<close>

definition hasEmpty :: "cell list \<Rightarrow> bool" where
  "hasEmpty row = list_ex (\<lambda>v. v = Some 0) row"

text \<open>The \<^verbatim>\<open>while\<close> loop of \<^verbatim>\<open>clearRows\<close>: \<^verbatim>\<open>unshift\<close> puts a new row of zeros in front.\<close>

function unshiftRows :: "matrix \<Rightarrow> matrix" where
  "unshiftRows newGrid =
     (if length newGrid < ROWS then unshiftRows (replicate COLS (Some 0) # newGrid)
      else newGrid)"
  by pat_completeness auto
termination
  by (relation "measure (\<lambda>newGrid. ROWS - length newGrid)") auto

declare unshiftRows.simps [simp del]

record cleared =
  newGrid :: matrix
  clearedRows :: int

definition clearRows :: "matrix \<Rightarrow> cleared" where
  "clearRows g =
     (let kept = filter hasEmpty g
      in \<lparr>newGrid = unshiftRows kept, clearedRows = int ROWS - int (length kept)\<rparr>)"

section \<open>Rotation\<close>

text \<open>
  The matrix \<^verbatim>\<open>rotated\<close> of \<^verbatim>\<open>rotateTetromino\<close>:
  \<^verbatim>\<open>tetromino[0].map((_, idx) => tetromino.map((row) => row[idx]).reverse())\<close>.
  With no row at all \<^verbatim>\<open>tetromino[0]\<close> is \<^verbatim>\<open>undefined\<close> and calling \<^verbatim>\<open>map\<close> on it
  raises a \<^verbatim>\<open>TypeError\<close>.
\<close>

definition rotated :: "matrix \<Rightarrow> error + matrix" where
  "rotated t =
     (case at t 0 of
        None \<Rightarrow> Inl TypeError
      | Some row0 \<Rightarrow>
          Inr (map (\<lambda>idx. rev (map (\<lambda>row. cellOf row (int idx)) t)) [0 ..< length row0]))"

section \<open>The game state and its commands\<close>

text \<open>
  The five \<^verbatim>\<open>useState\<close> cells of the component. Each command reads the state of the
  render it was created in and returns the state after its setters; the status is
  running when neither \<open>isPaused\<close> nor \<open>gameOver\<close> is set.
\<close>

record state =
  grid :: matrix
  position :: position
  tetromino :: matrix
  gameOver :: bool
  isPaused :: bool

definition moveTetromino :: "int \<Rightarrow> state \<Rightarrow> state" where
  "moveTetromino dir s =
     (if isPaused s \<or> gameOver s then s
      else
        let newPos = \<lparr>x = x (position s) + dir, y = y (position s)\<rparr>
        in if \<not> isColliding (grid s) (tetromino s) newPos then s\<lparr>position := newPos\<rparr> else s)"

text \<open>
  \<^verbatim>\<open>dropTetromino\<close>, the tick and the soft drop; \<open>k\<close> is the index that
  \<^verbatim>\<open>randomTetromino\<close> draws when a new piece is needed.
\<close>

definition dropTetromino :: "nat \<Rightarrow> state \<Rightarrow> error + state" where
  "dropTetromino k s =
     (if isPaused s \<or> gameOver s then Inr s
      else
        let newPos = \<lparr>x = x (position s), y = y (position s) + 1\<rparr>
        in if \<not> isColliding (grid s) (tetromino s) newPos then Inr (s\<lparr>position := newPos\<rparr>)
           else if y (position s) = 0 then Inr (s\<lparr>gameOver := True\<rparr>)
           else (case merge (grid s) (tetromino s) (position s) of
                   Inl e \<Rightarrow> Inl e
                 | Inr mergedGrid \<Rightarrow>
                     Inr (s\<lparr>grid := newGrid (clearRows mergedGrid),
                            tetromino := randomTetromino k,
                            position := spawn\<rparr>)))"

definition rotateTetromino :: "state \<Rightarrow> error + state" where
  "rotateTetromino s =
     (if isPaused s \<or> gameOver s then Inr s
      else (case rotated (tetromino s) of
              Inl e \<Rightarrow> Inl e
            | Inr rot \<Rightarrow>
                if \<not> isColliding (grid s) rot (position s) then Inr (s\<lparr>tetromino := rot\<rparr>)
                else Inr s))"

section \<open>Vocabulary of the properties\<close>

text \<open>The coordinates of the playfield: rows \<open>0 .. ROWS - 1\<close>, columns \<open>0 .. COLS - 1\<close>.\<close>

definition inField :: "int \<Rightarrow> int \<Rightarrow> bool" where
  "inField i j = (0 \<le> i \<and> i < int ROWS \<and> 0 \<le> j \<and> j < int COLS)"

text \<open>A grid as the data model has it: \<open>ROWS\<close> rows of \<open>COLS\<close> numbers each.\<close>

definition wellFormed :: "matrix \<Rightarrow> bool" where
  "wellFormed g = (length g = ROWS \<and> (\<forall>row \<in> set g. length row = COLS \<and> None \<notin> set row))"

text \<open>A rectangular matrix of \<open>R\<close> rows and \<open>C\<close> columns.\<close>

definition rect :: "nat \<Rightarrow> nat \<Rightarrow> matrix \<Rightarrow> bool" where
  "rect R C t = (length t = R \<and> (\<forall>row \<in> set t. length row = C))"

section \<open>Properties of the collision check\<close>

lemma isColliding_row_iff:
  "isColliding_row g vs pos r c \<longleftrightarrow>
     (\<exists>k < length vs. truthy (vs ! k) \<and> blocked g (y pos + int r) (x pos + int (c + k)))"
proof (induction vs arbitrary: c)
  case Nil
  then show ?case by simp
next
  case (Cons v vs)
  have shift: "\<And>k. int (Suc c + k) = int (c + Suc k)" by simp
  show ?case
    unfolding isColliding_row.simps Cons.IH length_Cons Ex_less_Suc2 nth_Cons_0 nth_Cons_Suc shift
    by auto
qed

lemma isColliding_rows_iff:
  "isColliding_rows g rows pos r \<longleftrightarrow>
     (\<exists>i < length rows. \<exists>k < length (rows ! i).
        truthy (rows ! i ! k) \<and> blocked g (y pos + int (r + i)) (x pos + int k))"
proof (induction rows arbitrary: r)
  case Nil
  then show ?case by simp
next
  case (Cons row rows)
  have shift: "\<And>i. int (Suc r + i) = int (r + Suc i)" by simp
  show ?case
    unfolding isColliding_rows.simps Cons.IH length_Cons Ex_less_Suc2 nth_Cons_0 nth_Cons_Suc shift
      isColliding_row_iff
    by auto
qed

lemma truthy_cellAt_iff:
  "truthy (cellAt t r c) \<longleftrightarrow>
     0 \<le> r \<and> r < int (length t) \<and> 0 \<le> c \<and> c < int (length (t ! nat r)) \<and> truthy (t ! nat r ! nat c)"
  by (auto simp: cellAt_def cellOf_def at_def truthy_def split: option.splits)

lemma isColliding_iff:
  "isColliding g t pos \<longleftrightarrow> (\<exists>r c. truthy (cellAt t r c) \<and> blocked g (y pos + r) (x pos + c))"
proof
  assume "isColliding g t pos"
  then obtain i k where ik: "i < length t" "k < length (t ! i)" "truthy (t ! i ! k)"
      "blocked g (y pos + int i) (x pos + int k)"
    by (auto simp: isColliding_def isColliding_rows_iff)
  then have "truthy (cellAt t (int i) (int k))"
    by (simp add: truthy_cellAt_iff)
  with ik show "\<exists>r c. truthy (cellAt t r c) \<and> blocked g (y pos + r) (x pos + c)"
    by blast
next
  assume "\<exists>r c. truthy (cellAt t r c) \<and> blocked g (y pos + r) (x pos + c)"
  then obtain r c where rc: "truthy (cellAt t r c)" "blocked g (y pos + r) (x pos + c)"
    by blast
  then have "nat r < length t" "nat c < length (t ! nat r)" "truthy (t ! nat r ! nat c)"
     "int (nat r) = r" "int (nat c) = c"
    by (auto simp: truthy_cellAt_iff)
  with rc show "isColliding g t pos"
    unfolding isColliding_def isColliding_rows_iff
    by force
qed

text \<open>
  Claim C2. For every grid, piece and position, negative coordinates included,
  \<open>isColliding\<close> is true exactly when some filled cell of the piece (a truthy cell at row
  \<open>r\<close> and column \<open>c\<close> of its matrix) lands on a row \<open>\<ge> ROWS\<close>, on a column \<open>< 0\<close>, on a
  column \<open>\<ge> COLS\<close> or, only when its row is \<open>\<ge> 0\<close>, on an occupied cell of the grid. In
  particular a filled cell outside \<open>[0, COLS)\<close> collides whatever its row, and a piece whose
  filled cells all lie above row 0, between the walls, collides with no grid.
\<close>

theorem isColliding_spec:
  "(isColliding g t pos \<longleftrightarrow>
      (\<exists>r c. truthy (cellAt t r c) \<and>
         (y pos + r \<ge> int ROWS \<or> x pos + c < 0 \<or> x pos + c \<ge> int COLS \<or>
          (y pos + r \<ge> 0 \<and> truthy (cellAt g (y pos + r) (x pos + c)))))) \<and>
   (\<forall>r c. truthy (cellAt t r c) \<and> (x pos + c < 0 \<or> x pos + c \<ge> int COLS)
      \<longrightarrow> isColliding g t pos) \<and>
   ((\<forall>r c. truthy (cellAt t r c) \<longrightarrow> y pos + r < 0 \<and> 0 \<le> x pos + c \<and> x pos + c < int COLS)
      \<longrightarrow> \<not> isColliding g t pos)"
proof (intro conjI allI impI)
  show "isColliding g t pos \<longleftrightarrow>
      (\<exists>r c. truthy (cellAt t r c) \<and>
         (y pos + r \<ge> int ROWS \<or> x pos + c < 0 \<or> x pos + c \<ge> int COLS \<or>
          (y pos + r \<ge> 0 \<and> truthy (cellAt g (y pos + r) (x pos + c)))))"
    by (simp only: isColliding_iff blocked_def)
next
  fix r c
  assume "truthy (cellAt t r c) \<and> (x pos + c < 0 \<or> x pos + c \<ge> int COLS)"
  then have "truthy (cellAt t r c) \<and> blocked g (y pos + r) (x pos + c)"
    by (auto simp: blocked_def)
  then show "isColliding g t pos"
    unfolding isColliding_iff by blast
next
  assume above: "\<forall>r c. truthy (cellAt t r c) \<longrightarrow>
    y pos + r < 0 \<and> 0 \<le> x pos + c \<and> x pos + c < int COLS"
  show "\<not> isColliding g t pos"
  proof
    assume "isColliding g t pos"
    then obtain r c where rc: "truthy (cellAt t r c)" "blocked g (y pos + r) (x pos + c)"
      unfolding isColliding_iff by blast
    from above rc(1) have "y pos + r < 0" "0 \<le> x pos + c" "x pos + c < int COLS"
      by blast+
    with rc(2) show False
      by (simp add: blocked_def)
  qed
qed

text \<open>The filled cells of the I piece.\<close>

lemma filled_I: "truthy (cellAt (TETROMINOS KI) r c) \<longleftrightarrow> r = 0 \<and> 0 \<le> c \<and> c < 4"
proof -
  have "\<And>n. n < 4 \<Longrightarrow> [Some 1, Some 1, Some 1, Some (1::int)] ! n = Some 1"
    by (simp add: nth_Cons' )
  then show ?thesis
  by (auto simp: cellAt_def cellOf_def at_def nums_def truthy_def split: option.splits if_splits)
qed

theorem isColliding_spec_witness:
  "truthy (cellAt (TETROMINOS KI) 0 3) \<and> x \<lparr>x = 7, y = - 3\<rparr> + 3 \<ge> int COLS \<and>
   isColliding [] (TETROMINOS KI) \<lparr>x = 7, y = - 3\<rparr> \<and>
   \<not> isColliding [[Some 1]] (TETROMINOS KI) \<lparr>x = 4, y = - 3\<rparr>"
proof -
  have filled: "truthy (cellAt (TETROMINOS KI) 0 3)"
    by (simp del: TETROMINOS.simps add: filled_I)
  have wall: "x \<lparr>x = 7, y = - 3\<rparr> + 3 \<ge> int COLS"
    by (simp add: COLS_def)
  have above: "\<forall>r c. truthy (cellAt (TETROMINOS KI) r c) \<longrightarrow>
      y \<lparr>x = 4, y = - 3\<rparr> + r < 0 \<and> 0 \<le> x \<lparr>x = 4, y = - 3\<rparr> + c \<and>
      x \<lparr>x = 4, y = - 3\<rparr> + c < int COLS"
    by (simp del: TETROMINOS.simps add: filled_I COLS_def)
  from filled wall isColliding_spec [of "[]" "TETROMINOS KI" "\<lparr>x = 7, y = - 3\<rparr>"]
  have "isColliding [] (TETROMINOS KI) \<lparr>x = 7, y = - 3\<rparr>"
    by blast
  moreover from above isColliding_spec [of "[[Some 1]]" "TETROMINOS KI" "\<lparr>x = 4, y = - 3\<rparr>"]
  have "\<not> isColliding [[Some 1]] (TETROMINOS KI) \<lparr>x = 4, y = - 3\<rparr>"
    by blast
  ultimately show ?thesis
    using filled wall by blast
qed

lemma cellAt_outside:
  "\<not> (0 \<le> i \<and> i < int (length g) \<and> 0 \<le> j \<and> j < int (length (g ! nat i))) \<Longrightarrow> cellAt g i j = None"
  by (auto simp: cellAt_def cellOf_def at_def)

lemma cellAt_inside:
  "0 \<le> i \<Longrightarrow> i < int (length g) \<Longrightarrow> 0 \<le> j \<Longrightarrow> j < int (length (g ! nat i)) \<Longrightarrow>
   cellAt g i j = g ! nat i ! nat j"
  by (auto simp: cellAt_def cellOf_def at_def)

lemma blocked_cong:
  "(inField i j \<Longrightarrow> cellAt g' i j = cellAt g i j) \<Longrightarrow> blocked g' i j = blocked g i j"
  unfolding blocked_def inField_def by (cases "0 \<le> i \<and> i < int ROWS \<and> 0 \<le> j \<and> j < int COLS") auto

lemma wellFormed_row:
  assumes "wellFormed g" "inField i j"
  shows "0 \<le> i" "i < int (length g)" "0 \<le> j" "j < int (length (g ! nat i))"
    "None \<notin> set (g ! nat i)"
proof -
  from assms show i: "0 \<le> i" "i < int (length g)" and "0 \<le> j"
    by (simp_all add: wellFormed_def inField_def)
  then have "nat i < length g" by linarith
  then have "g ! nat i \<in> set g" by (rule nth_mem)
  with assms show "j < int (length (g ! nat i))" "None \<notin> set (g ! nat i)"
    by (simp_all add: wellFormed_def inField_def)
qed

lemma probe_eq: "probe g i j = Inr (cellAt g i j)"
  by (simp add: probe_def memberOpt_def cellAt_def split: option.splits)

lemma blocked_with_eq:
  assumes "inField i j \<Longrightarrow> look i j = Inr (cellAt g i j)"
  shows "blocked_with look i j = Inr (blocked g i j)"
proof (cases "inField i j")
  case True
  with assms show ?thesis
    by (auto simp: blocked_with_def blocked_def inField_def)
next
  case False
  then show ?thesis
    by (auto simp: blocked_with_def blocked_def inField_def)
qed

lemma isColliding_cols_eq:
  assumes look: "\<And>i j. inField i j \<Longrightarrow> look i j = Inr (cellAt g i j)"
    and r: "r < length t"
  shows "isColliding_cols look t pos r c = Inr (isColliding_row g (drop c (t ! r)) pos r c)"
proof (induction "length (t ! r) - c" arbitrary: c)
  case 0
  then have "drop c (t ! r) = []" by simp
  moreover from r have "at t (int r) = Some (t ! r)" by (simp add: at_def)
  ultimately show ?case
    using 0 by (subst isColliding_cols.simps) (simp add: lengthOf_def)
next
  case (Suc d)
  then have c: "c < length (t ! r)" and d: "d = length (t ! r) - Suc c" by simp_all
  from r have row: "at t (int r) = Some (t ! r)" by (simp add: at_def)
  from c have split: "drop c (t ! r) = (t ! r) ! c # drop (Suc c) (t ! r)"
    by (simp add: Cons_nth_drop_Suc)
  from c have cell: "cellOf (t ! r) (int c) = (t ! r) ! c"
    by (simp add: cellOf_def at_def)
  note b = blocked_with_eq [of "y pos + int r" "x pos + int c" look g, OF look]
  show ?case
    by (subst isColliding_cols.simps)
      (simp add: row lengthOf_def member_def c cell split b Suc.hyps(1) [OF d])
qed

lemma isColliding_loop_eq:
  assumes look: "\<And>i j. inField i j \<Longrightarrow> look i j = Inr (cellAt g i j)"
  shows "isColliding_loop look t pos r = Inr (isColliding_rows g (drop r t) pos r)"
proof (induction "length t - r" arbitrary: r)
  case 0
  then show ?case
    by (subst isColliding_loop.simps) simp
next
  case (Suc d)
  then have r: "r < length t" and d: "d = length t - Suc r" by simp_all
  from r have split: "drop r t = t ! r # drop (Suc r) t"
    by (simp add: Cons_nth_drop_Suc)
  have cols: "isColliding_cols look t pos r 0 = Inr (isColliding_row g (t ! r) pos r 0)"
    using isColliding_cols_eq [of look g r t pos 0, OF look r] by simp
  show ?case
    by (subst isColliding_loop.simps) (simp add: r cols split Suc.hyps(1) [OF d])
qed

lemma isColliding_with_eq:
  assumes "\<And>i j. inField i j \<Longrightarrow> look i j = Inr (cellAt g i j)"
  shows "isColliding_loop look t pos 0 = Inr (isColliding g t pos)"
  using isColliding_loop_eq [of look g t pos 0, OF assms] by (simp add: isColliding_def)

lemma probe_outside:
  assumes wf: "wellFormed g" and out: "\<not> inField i j"
  shows "probe g i j = Inr None"
proof -
  have "\<not> (0 \<le> i \<and> i < int (length g) \<and> 0 \<le> j \<and> j < int (length (g ! nat i)))"
  proof
    assume a: "0 \<le> i \<and> i < int (length g) \<and> 0 \<le> j \<and> j < int (length (g ! nat i))"
    then have "nat i < length g" by linarith
    then have "g ! nat i \<in> set g" by (rule nth_mem)
    with wf have "length (g ! nat i) = COLS" by (simp add: wellFormed_def)
    with a wf have "inField i j" by (simp add: wellFormed_def inField_def)
    with out show False by simp
  qed
  then have "cellAt g i j = None" by (rule cellAt_outside)
  then show ?thesis by (simp add: probe_eq)
qed

lemma probe_inside:
  assumes wf: "wellFormed g" and inside: "inField i j"
  shows "\<exists>n. probe g i j = Inr (Some n) \<and> g ! nat i ! nat j = Some n"
proof -
  note r = wellFormed_row [OF wf inside]
  from r(1-4) have eq: "cellAt g i j = g ! nat i ! nat j" by (rule cellAt_inside)
  from r(3,4) have "g ! nat i ! nat j \<in> set (g ! nat i)" by simp
  with r(5) obtain n where "g ! nat i ! nat j = Some n"
    by (cases "g ! nat i ! nat j") auto
  with eq show ?thesis by (simp add: probe_eq)
qed

text \<open>
  Claim C9. In the embedding with the faults written out, \<open>isColliding_js\<close> returns a
  boolean, the one \<open>isColliding\<close> computes, and never an error: the reads of the piece
  stay below the loops' bounds and the optional chaining stops at an \<^verbatim>\<open>undefined\<close> row.
  For a grid of \<open>ROWS\<close> rows of \<open>COLS\<close> numbers, a probe outside the playfield gives
  \<^verbatim>\<open>undefined\<close>, not an error, and counts as unoccupied; a probe inside it gives the number
  stored there; and with any lookup that agrees with the grid inside the playfield,
  whatever it does outside, raising included, the check returns the same boolean: the
  lookup is consulted only where it is defined. Likewise the result is the same for every
  grid with the same cells inside the playfield.
\<close>

theorem isColliding_probe_safe:
  "wellFormed g \<Longrightarrow>
     isColliding_js g t pos = Inr (isColliding g t pos) \<and>
     (\<forall>i j. \<not> inField i j \<longrightarrow> probe g i j = Inr None \<and> \<not> truthy (cellAt g i j)) \<and>
     (\<forall>i j. inField i j \<longrightarrow> (\<exists>n. probe g i j = Inr (Some n) \<and> g ! nat i ! nat j = Some n)) \<and>
     (\<forall>look. (\<forall>i j. inField i j \<longrightarrow> look i j = probe g i j)
        \<longrightarrow> isColliding_loop look t pos 0 = Inr (isColliding g t pos)) \<and>
     (\<forall>g'. (\<forall>i j. inField i j \<longrightarrow> cellAt g' i j = cellAt g i j)
        \<longrightarrow> isColliding g' t pos = isColliding g t pos)"
proof (intro conjI allI impI)
  show "isColliding_js g t pos = Inr (isColliding g t pos)"
    unfolding isColliding_js_def by (rule isColliding_with_eq) (rule probe_eq)
next
  fix i j
  assume wf: "wellFormed g" and out: "\<not> inField i j"
  then show p: "probe g i j = Inr None" by (rule probe_outside)
  then show "\<not> truthy (cellAt g i j)" by (simp add: probe_eq truthy_def)
next
  fix i j
  assume "wellFormed g" "inField i j"
  then show "\<exists>n. probe g i j = Inr (Some n) \<and> g ! nat i ! nat j = Some n"
    by (rule probe_inside)
next
  fix look
  assume "\<forall>i j. inField i j \<longrightarrow> look i j = probe g i j"
  then have "\<And>i j. inField i j \<Longrightarrow> look i j = Inr (cellAt g i j)"
    by (simp add: probe_eq)
  then show "isColliding_loop look t pos 0 = Inr (isColliding g t pos)"
    by (rule isColliding_with_eq)
next
  fix g'
  assume "\<forall>i j. inField i j \<longrightarrow> cellAt g' i j = cellAt g i j"
  then have "\<And>i j. blocked g' i j = blocked g i j"
    by (intro blocked_cong) blast
  then show "isColliding g' t pos = isColliding g t pos"
    by (simp add: isColliding_iff)
qed

lemma wellFormed_createGrid: "wellFormed createGrid"
  by (simp add: wellFormed_def createGrid_def)

theorem isColliding_probe_safe_witness:
  "wellFormed createGrid \<and>
   isColliding_js createGrid (TETROMINOS KT) \<lparr>x = 4, y = - 1\<rparr> = Inr False \<and>
   isColliding_js createGrid (TETROMINOS KT) \<lparr>x = 8, y = 19\<rparr> = Inr True \<and>
   probe createGrid (- 1) 4 = Inr None \<and> probe createGrid 3 10 = Inr None \<and>
   \<not> truthy (cellAt createGrid 3 10) \<and>
   (\<exists>n. probe createGrid 19 9 = Inr (Some n)) \<and>
   isColliding_loop (\<lambda>i j. if inField i j then probe createGrid i j else Inl TypeError)
     (TETROMINOS KT) \<lparr>x = 4, y = - 1\<rparr> 0 = Inr False \<and>
   isColliding (createGrid @ [replicate COLS (Some 1)]) (TETROMINOS KO) \<lparr>x = 4, y = 18\<rparr> =
     isColliding createGrid (TETROMINOS KO) \<lparr>x = 4, y = 18\<rparr>"
proof -
  note a = isColliding_probe_safe [OF wellFormed_createGrid,
      of "TETROMINOS KT" "\<lparr>x = 4, y = - 1\<rparr>"]
  note b = isColliding_probe_safe [OF wellFormed_createGrid,
      of "TETROMINOS KT" "\<lparr>x = 8, y = 19\<rparr>"]
  note c = isColliding_probe_safe [OF wellFormed_createGrid,
      of "TETROMINOS KO" "\<lparr>x = 4, y = 18\<rparr>"]
  have ev: "\<not> isColliding createGrid (TETROMINOS KT) \<lparr>x = 4, y = - 1\<rparr>"
    "isColliding createGrid (TETROMINOS KT) \<lparr>x = 8, y = 19\<rparr>"
    by code_simp+
  have out1: "\<not> inField (- 1) 4" and out2: "\<not> inField 3 10" and in1: "inField 19 9"
    by (simp_all add: inField_def ROWS_def COLS_def)
  have same: "\<forall>i j. inField i j \<longrightarrow>
      cellAt (createGrid @ [replicate COLS (Some 1)]) i j = cellAt createGrid i j"
    by (auto simp: cellAt_def at_def inField_def createGrid_def nth_append)
  have look: "\<forall>i j. inField i j \<longrightarrow>
      (if inField i j then probe createGrid i j else Inl TypeError) = probe createGrid i j"
    by simp
  from a [THEN conjunct1] ev(1)
  have "isColliding_js createGrid (TETROMINOS KT) \<lparr>x = 4, y = - 1\<rparr> = Inr False" by simp
  moreover from b [THEN conjunct1] ev(2)
  have "isColliding_js createGrid (TETROMINOS KT) \<lparr>x = 8, y = 19\<rparr> = Inr True" by simp
  moreover from a [THEN conjunct2, THEN conjunct1, rule_format, OF out1]
  have "probe createGrid (- 1) 4 = Inr None" by (rule conjunct1)
  moreover from a [THEN conjunct2, THEN conjunct1, rule_format, OF out2]
  have "probe createGrid 3 10 = Inr None \<and> \<not> truthy (cellAt createGrid 3 10)" .
  moreover from a [THEN conjunct2, THEN conjunct2, THEN conjunct1, rule_format, OF in1]
  have "\<exists>n. probe createGrid 19 9 = Inr (Some n)" by blast
  moreover
  have "isColliding_loop (\<lambda>i j. if inField i j then probe createGrid i j else Inl TypeError)
     (TETROMINOS KT) \<lparr>x = 4, y = - 1\<rparr> 0 = Inr (isColliding createGrid (TETROMINOS KT) \<lparr>x = 4, y = - 1\<rparr>)"
    by (rule a [THEN conjunct2, THEN conjunct2, THEN conjunct2, THEN conjunct1, rule_format])
      simp
  with ev(1) have "isColliding_loop (\<lambda>i j. if inField i j then probe createGrid i j else Inl TypeError)
     (TETROMINOS KT) \<lparr>x = 4, y = - 1\<rparr> 0 = Inr False" by simp
  moreover
  have "isColliding (createGrid @ [replicate COLS (Some 1)]) (TETROMINOS KO) \<lparr>x = 4, y = 18\<rparr> =
     isColliding createGrid (TETROMINOS KO) \<lparr>x = 4, y = 18\<rparr>"
    by (rule c [THEN conjunct2, THEN conjunct2, THEN conjunct2, THEN conjunct2, rule_format])
      (simp add: same)
  ultimately show ?thesis
    using wellFormed_createGrid by simp
qed

section \<open>Properties of row clearing\<close>

lemma unshiftRows_eq:
  "unshiftRows g = replicate (ROWS - length g) (replicate COLS (Some 0)) @ g"
proof (induction g rule: unshiftRows.induct)
  case (1 newGrid)
  let ?z = "replicate COLS (Some (0::int))"
  show ?case
  proof (cases "length newGrid < ROWS")
    case True
    have "unshiftRows newGrid = unshiftRows (?z # newGrid)"
      using True by (subst unshiftRows.simps) simp
    also have "\<dots> = replicate (ROWS - Suc (length newGrid)) ?z @ ?z # newGrid"
      using "1" [OF True] by simp
    also have "\<dots> = replicate (Suc (ROWS - Suc (length newGrid))) ?z @ newGrid"
      by (simp only: replicate_Suc replicate_app_Cons_same append_Cons)
    also have "Suc (ROWS - Suc (length newGrid)) = ROWS - length newGrid"
      using True by (rule Suc_diff_Suc)
    finally show ?thesis .
  next
    case False
    have "unshiftRows newGrid = newGrid"
      using False by (subst unshiftRows.simps) simp
    with False show ?thesis by simp
  qed
qed

lemma hasEmpty_iff: "hasEmpty row \<longleftrightarrow> Some 0 \<in> set row"
  by (auto simp: hasEmpty_def list_ex_iff)

lemma clearRows_newGrid:
  assumes "length g = ROWS"
  shows "newGrid (clearRows g) =
           replicate (length (filter (\<lambda>row. Some 0 \<notin> set row) g)) (replicate COLS (Some 0))
           @ filter (\<lambda>row. Some 0 \<in> set row) g"
proof -
  have "length (filter (\<lambda>row. Some 0 \<in> set row) g) +
      length (filter (\<lambda>row. Some 0 \<notin> set row) g) = length g"
    by (rule sum_length_filter_compl)
  with assms have "ROWS - length (filter (\<lambda>row. Some 0 \<in> set row) g) =
      length (filter (\<lambda>row. Some 0 \<notin> set row) g)"
    by linarith
  moreover have "filter hasEmpty g = filter (\<lambda>row. Some 0 \<in> set row) g"
    by (simp add: hasEmpty_iff [abs_def])
  ultimately show ?thesis
    by (simp add: clearRows_def Let_def unshiftRows_eq)
qed

text \<open>
  Claim C3. For a grid of \<open>ROWS\<close> rows, \<open>clearRows\<close> returns the rows that contain a 0, in
  their order, below as many new rows of zeros as there were rows without a 0; it returns
  that number as \<open>clearedRows\<close>, and the new grid has \<open>ROWS\<close> rows again.
\<close>

theorem clearRows_spec:
  assumes "length g = ROWS"
  shows "newGrid (clearRows g) =
           replicate (length (filter (\<lambda>row. Some 0 \<notin> set row) g)) (replicate COLS (Some 0))
           @ filter (\<lambda>row. Some 0 \<in> set row) g \<and>
         clearedRows (clearRows g) = int (length (filter (\<lambda>row. Some 0 \<notin> set row) g)) \<and>
         length (newGrid (clearRows g)) = ROWS"
proof -
  define kept where "kept = filter (\<lambda>row. Some 0 \<in> set row) g"
  define n where "n = length (filter (\<lambda>row. Some 0 \<notin> set row) g)"
  have "length kept + n = length g"
    unfolding kept_def n_def by (rule sum_length_filter_compl)
  with assms have len: "length kept + n = ROWS"
    by simp
  then have diff: "ROWS - length kept = n" and idiff: "int ROWS - int (length kept) = int n"
    by linarith+
  have "filter hasEmpty g = kept"
    unfolding kept_def by (simp add: hasEmpty_iff [abs_def])
  then have "clearRows g =
      \<lparr>newGrid = replicate (ROWS - length kept) (replicate COLS (Some 0)) @ kept,
       clearedRows = int ROWS - int (length kept)\<rparr>"
    by (simp add: clearRows_def Let_def unshiftRows_eq)
  then have "clearRows g =
      \<lparr>newGrid = replicate n (replicate COLS (Some 0)) @ kept, clearedRows = int n\<rparr>"
    by (simp only: diff idiff)
  then have "newGrid (clearRows g) = replicate n (replicate COLS (Some 0)) @ kept"
    and "clearedRows (clearRows g) = int n"
    by simp_all
  moreover from this(1) len have "length (newGrid (clearRows g)) = ROWS"
    by simp
  ultimately show ?thesis
    unfolding kept_def n_def by blast
qed

theorem clearRows_spec_witness:
  "length (replicate 18 (replicate 10 (Some 0)) @
           [Some 0 # replicate 9 (Some 1), replicate 10 (Some 1)]) = ROWS \<and>
   newGrid (clearRows (replicate 18 (replicate 10 (Some 0)) @
           [Some 0 # replicate 9 (Some 1), replicate 10 (Some 1)])) =
     replicate 10 (Some 0) # replicate 18 (replicate 10 (Some 0)) @
       [Some 0 # replicate 9 (Some 1)] \<and>
   clearedRows (clearRows (replicate 18 (replicate 10 (Some 0)) @
           [Some 0 # replicate 9 (Some 1), replicate 10 (Some 1)])) = 1"
proof -
  have len: "length (replicate 18 (replicate 10 (Some (0::int))) @
           [Some 0 # replicate 9 (Some 1), replicate 10 (Some 1)]) = ROWS"
    by (simp add: ROWS_def)
  show ?thesis
    using clearRows_spec [OF len] len by (simp add: COLS_def)
qed

section \<open>Properties of the rotation\<close>

lemma rect_row: "rect R C t \<Longrightarrow> i < R \<Longrightarrow> length (t ! i) = C"
  by (simp add: rect_def)

lemma cellOf_nth: "i < length row \<Longrightarrow> cellOf row (int i) = row ! i"
  by (simp add: cellOf_def at_def)

lemma rotated_rect:
  assumes "rect R C t" "0 < R"
  shows "rotated t = Inr (map (\<lambda>i. rev (map (\<lambda>row. row ! i) t)) [0 ..< C])"
proof -
  from assms have "at t 0 = Some (t ! 0)" and "length (t ! 0) = C"
    by (simp_all add: at_def rect_def)
  moreover have "map (\<lambda>idx. rev (map (\<lambda>row. cellOf row (int idx)) t)) [0 ..< C] =
      map (\<lambda>i. rev (map (\<lambda>row. row ! i) t)) [0 ..< C]"
  proof (rule map_cong [OF refl])
    fix i assume "i \<in> set [0 ..< C]"
    then have "i < C" by simp
    with assms(1) have "map (\<lambda>row. cellOf row (int i)) t = map (\<lambda>row. row ! i) t"
      by (intro map_cong [OF refl]) (simp add: rect_def cellOf_nth)
    then show "rev (map (\<lambda>row. cellOf row (int i)) t) = rev (map (\<lambda>row. row ! i) t)"
      by simp
  qed
  ultimately show ?thesis
    by (simp add: rotated_def)
qed

lemma rotated_nth:
  assumes "rect R C t" "0 < R"
  shows "\<exists>t'. rotated t = Inr t' \<and> rect C R t' \<and>
           (\<forall>i<C. t' ! i = rev (map (\<lambda>row. row ! i) t)) \<and>
           (\<forall>i<C. \<forall>j<R. t' ! i ! j = t ! (R - Suc j) ! i)"
proof -
  let ?t' = "map (\<lambda>i. rev (map (\<lambda>row. row ! i) t)) [0 ..< C]"
  from assms have len: "length t = R" by (simp add: rect_def)
  have "rect C R ?t'"
    by (auto simp: rect_def len)
  moreover have "\<forall>i<C. ?t' ! i = rev (map (\<lambda>row. row ! i) t)"
    by simp
  moreover have "\<forall>i<C. \<forall>j<R. ?t' ! i ! j = t ! (R - Suc j) ! i"
    by (simp add: rev_nth len)
  ultimately show ?thesis
    using rotated_rect [OF assms] by blast
qed

text \<open>
  Claim C6. For a rectangular matrix of \<open>R\<close> rows and \<open>C\<close> columns that has a row
  (\<open>0 < R\<close>: a shape is not the empty matrix, on which \<^verbatim>\<open>tetromino[0].map\<close> raises),
  the rotation gives a matrix of \<open>C\<close> rows of \<open>R\<close> cells whose row \<open>i\<close> is column \<open>i\<close> of
  the input read from the top and then reversed: its cell \<open>j\<close> is cell \<open>i\<close> of input row
  \<open>R - 1 - j\<close>, the quarter turn clockwise.
\<close>

theorem rotated_spec:
  assumes "length t = R" "\<forall>row \<in> set t. length row = C" "0 < R"
  shows "\<exists>t'. rotated t = Inr t' \<and> length t' = C \<and>
           (\<forall>i<C. length (t' ! i) = R \<and> t' ! i = rev (map (\<lambda>row. row ! i) t) \<and>
                  (\<forall>j<R. t' ! i ! j = t ! (R - 1 - j) ! i))"
proof -
  from assms have "rect R C t" by (simp add: rect_def)
  from rotated_nth [OF this assms(3)] obtain t' where t': "rotated t = Inr t'" "rect C R t'"
      "\<forall>i<C. t' ! i = rev (map (\<lambda>row. row ! i) t)"
      "\<forall>i<C. \<forall>j<R. t' ! i ! j = t ! (R - Suc j) ! i"
    by blast
  from t'(2) have "length t' = C" and "\<forall>i<C. length (t' ! i) = R"
    by (simp_all add: rect_def)
  with t'(1,3,4) show ?thesis
    by simp
qed

theorem rotated_spec_witness:
  "length (TETROMINOS KT) = 2 \<and> 0 < (2::nat) \<and>
   rotated (TETROMINOS KT) = Inr (nums [[1, 0], [1, 1], [1, 0]])"
proof -
  have dims: "length (TETROMINOS KT) = 2" "\<forall>row \<in> set (TETROMINOS KT). length row = 3"
    "0 < (2::nat)"
    by (simp_all add: nums_def)
  have "rotated (TETROMINOS KT) = Inr (nums [[1, 0], [1, 1], [1, 0]])"
    by code_simp
  with rotated_spec [OF dims] dims(1) show ?thesis
    by simp
qed

lemma rect_eqI:
  assumes "rect R C a" "rect R C b" "\<And>i j. i < R \<Longrightarrow> j < C \<Longrightarrow> a ! i ! j = b ! i ! j"
  shows "a = b"
proof (rule nth_equalityI)
  from assms(1,2) show "length a = length b" by (simp add: rect_def)
next
  fix i assume "i < length a"
  with assms(1) have i: "i < R" by (simp add: rect_def)
  show "a ! i = b ! i"
  proof (rule nth_equalityI)
    from assms(1,2) i show "length (a ! i) = length (b ! i)" by (simp add: rect_row)
  next
    fix j assume "j < length (a ! i)"
    with assms(1) i have "j < C" by (simp add: rect_row)
    with i show "a ! i ! j = b ! i ! j" by (rule assms(3))
  qed
qed

lemma rotated_twice:
  assumes "rect R C t" "0 < R" "0 < C"
  shows "\<exists>t1 t2. rotated t = Inr t1 \<and> rotated t1 = Inr t2 \<and> rect R C t2 \<and>
           (\<forall>i<R. \<forall>j<C. t2 ! i ! j = t ! (R - Suc i) ! (C - Suc j))"
proof -
  from rotated_nth [OF assms(1,2)] obtain t1 where t1: "rotated t = Inr t1" "rect C R t1"
      "\<forall>i<C. \<forall>j<R. t1 ! i ! j = t ! (R - Suc j) ! i"
    by blast
  from rotated_nth [OF t1(2) assms(3)] obtain t2 where t2: "rotated t1 = Inr t2" "rect R C t2"
      "\<forall>i<R. \<forall>j<C. t2 ! i ! j = t1 ! (C - Suc j) ! i"
    by blast
  have "\<forall>i<R. \<forall>j<C. t2 ! i ! j = t ! (R - Suc i) ! (C - Suc j)"
  proof (intro allI impI)
    fix i j assume ij: "i < R" "j < C"
    then have "C - Suc j < C" by simp
    with t1(3) t2(3) ij show "t2 ! i ! j = t ! (R - Suc i) ! (C - Suc j)" by simp
  qed
  with t1(1) t2(1,2) show ?thesis by blast
qed

text \<open>
  Claim C7. For a rectangular matrix with at least one row and one column (a shape has
  cells), four rotations in a row all succeed and the fourth returns the matrix they
  started from.
\<close>

theorem rotated_four_times:
  assumes "length t = R" "\<forall>row \<in> set t. length row = C" "0 < R" "0 < C"
  shows "\<exists>t1 t2 t3. rotated t = Inr t1 \<and> rotated t1 = Inr t2 \<and> rotated t2 = Inr t3 \<and>
           rotated t3 = Inr t"
proof -
  from assms have rect: "rect R C t" by (simp add: rect_def)
  from rotated_twice [OF rect assms(3,4)] obtain t1 t2 where a: "rotated t = Inr t1"
      "rotated t1 = Inr t2" "rect R C t2"
      "\<forall>i<R. \<forall>j<C. t2 ! i ! j = t ! (R - Suc i) ! (C - Suc j)"
    by blast
  from rotated_twice [OF a(3) assms(3,4)] obtain t3 t4 where b: "rotated t2 = Inr t3"
      "rotated t3 = Inr t4" "rect R C t4"
      "\<forall>i<R. \<forall>j<C. t4 ! i ! j = t2 ! (R - Suc i) ! (C - Suc j)"
    by blast
  have "t4 = t"
  proof (rule rect_eqI [OF b(3) rect])
    fix i j assume ij: "i < R" "j < C"
    then have "R - Suc i < R" "C - Suc j < C" "R - Suc (R - Suc i) = i" "C - Suc (C - Suc j) = j"
      by simp_all
    with a(4) b(4) ij show "t4 ! i ! j = t ! i ! j" by simp
  qed
  with a(1,2) b(1,2) show ?thesis by blast
qed

theorem rotated_four_times_witness:
  "rotated (TETROMINOS KT) = Inr (nums [[1, 0], [1, 1], [1, 0]]) \<and>
   rotated (nums [[1, 0], [1, 1], [1, 0]]) = Inr (nums [[1, 1, 1], [0, 1, 0]]) \<and>
   rotated (nums [[1, 1, 1], [0, 1, 0]]) = Inr (nums [[0, 1], [1, 1], [0, 1]]) \<and>
   rotated (nums [[0, 1], [1, 1], [0, 1]]) = Inr (TETROMINOS KT)"
proof -
  have dims: "length (TETROMINOS KT) = 2" "\<forall>row \<in> set (TETROMINOS KT). length row = 3"
    "0 < (2::nat)" "0 < (3::nat)"
    by (simp_all add: nums_def)
  have r1: "rotated (TETROMINOS KT) = Inr (nums [[1, 0], [1, 1], [1, 0]])"
    and r2: "rotated (nums [[1, 0], [1, 1], [1, 0]]) = Inr (nums [[1, 1, 1], [0, 1, 0]])"
    and r3: "rotated (nums [[1, 1, 1], [0, 1, 0]]) = Inr (nums [[0, 1], [1, 1], [0, 1]])"
    by code_simp+
  from rotated_four_times [OF dims] obtain t1 t2 t3 where
    "rotated (TETROMINOS KT) = Inr t1" "rotated t1 = Inr t2" "rotated t2 = Inr t3"
    "rotated t3 = Inr (TETROMINOS KT)"
    by blast
  with r1 r2 r3 show ?thesis by simp
qed

section \<open>Properties of merging\<close>

lemma cellOf_Nil: "cellOf [] k = None"
  by (auto simp: cellOf_def at_def)

lemma cellAt_Nil: "cellAt [] k c = None"
  by (auto simp: cellAt_def at_def)

lemma cellOf_Cons: "cellOf (v # vs) k = (if k = 0 then v else cellOf vs (k - 1))"
proof (cases "k \<le> 0")
  case True
  then show ?thesis by (auto simp: cellOf_def at_def)
next
  case False
  then have "nat k = Suc (nat (k - 1))" by linarith
  with False show ?thesis by (auto simp: cellOf_def at_def)
qed

lemma cellAt_Cons: "cellAt (row # rows) k c = (if k = 0 then cellOf row c else cellAt rows (k - 1) c)"
proof (cases "k \<le> 0")
  case True
  then show ?thesis by (auto simp: cellAt_def at_def)
next
  case False
  then have "nat k = Suc (nat (k - 1))" by linarith
  with False show ?thesis by (auto simp: cellAt_def at_def)
qed

lemma truthy_None: "\<not> truthy None"
  by (simp add: truthy_def)

lemma cellOf_setCell:
  "cellOf (setCell row j v) j' = (if j' = j \<and> 0 \<le> j then v else cellOf row j')"
proof (cases "j < 0")
  case True
  then show ?thesis by (auto simp: setCell_def)
next
  case nonneg: False
  show ?thesis
  proof (cases "j < int (length row)")
    case True
    with nonneg show ?thesis
      by (auto simp: setCell_def cellOf_def at_def nth_list_update)
  next
    case False
    with nonneg have len: "length row \<le> nat j" by linarith
    define ext where "ext = row @ replicate (nat j - length row) None @ [v]"
    have set: "setCell row j v = ext"
      using False nonneg by (simp add: setCell_def ext_def)
    have l: "length ext = Suc (nat j)"
      using len by (simp add: ext_def)
    have at_j: "ext ! nat j = v"
      using len by (simp add: ext_def nth_append)
    have gap: "ext ! n = None" if "n < nat j" "length row \<le> n" for n
    proof -
      from that have "n - length row < nat j - length row" by linarith
      with that show ?thesis by (simp add: ext_def nth_append)
    qed
    have old: "ext ! n = row ! n" if "n < length row" for n
      using that by (simp add: ext_def nth_append)
    show ?thesis
    proof (cases "j' = j")
      case True
      with nonneg l at_j show ?thesis
        by (auto simp: set cellOf_def at_def)
    next
      case ne: False
      show ?thesis
      proof (cases "0 \<le> j' \<and> j' < int (length row)")
        case True
        then have "nat j' < length row" by linarith
        from old [OF this] True l len ne show ?thesis
          by (auto simp: set cellOf_def at_def)
      next
        case out: False
        show ?thesis
        proof (cases "0 \<le> j' \<and> j' < j")
          case True
          with out have "nat j' < nat j" "length row \<le> nat j'" by linarith+
          from gap [OF this] True out l ne show ?thesis
            by (auto simp: set cellOf_def at_def)
        next
          case False
          with out ne l nonneg show ?thesis
            by (auto simp: set cellOf_def at_def)
        qed
      qed
    qed
  qed
qed

lemma setAt_Inr:
  assumes "setAt g i j v = Inr g'"
  shows "0 \<le> i" "i < int (length g)" "length g' = length g"
    "cellAt g' i' j' = (if i' = i \<and> j' = j \<and> 0 \<le> j then v else cellAt g i' j')"
proof -
  from assms show i: "0 \<le> i" "i < int (length g)"
    by (auto simp: setAt_def at_def split: if_splits)
  with assms have g': "g' = g[nat i := setCell (g ! nat i) j v]"
    by (simp add: setAt_def at_def)
  then show "length g' = length g" by simp
  show "cellAt g' i' j' = (if i' = i \<and> j' = j \<and> 0 \<le> j then v else cellAt g i' j')"
  proof (cases "i' = i")
    case True
    with i show ?thesis
      by (simp add: g' cellAt_def at_def cellOf_setCell)
  next
    case False
    then have "0 \<le> i' \<Longrightarrow> nat i' \<noteq> nat i" using i by linarith
    with False i show ?thesis
      by (auto simp: g' cellAt_def at_def)
  qed
qed

lemma setAt_Inl: "setAt g i j v = Inl e \<longleftrightarrow> \<not> (0 \<le> i \<and> i < int (length g))"
  by (cases e) (auto simp: setAt_def at_def)

lemma cellOf_neg: "k < 0 \<Longrightarrow> cellOf vs k = None"
  by (auto simp: cellOf_def at_def)

lemma cellAt_neg: "k < 0 \<Longrightarrow> cellAt rows k c = None"
  by (auto simp: cellAt_def at_def)

lemma merge_row_Inr:
  assumes "merge_row g vs pos r c = Inr g'"
  shows "length g' = length g \<and>
    (\<forall>i j. cellAt g' i j =
       (if i = y pos + int r \<and> i < int ROWS \<and> 0 \<le> j \<and> j < int COLS \<and>
           truthy (cellOf vs (j - x pos - int c))
        then cellOf vs (j - x pos - int c) else cellAt g i j))"
  using assms
proof (induction vs arbitrary: g c)
  case Nil
  then show ?case by (simp add: cellOf_Nil truthy_None)
next
  case (Cons v vs)
  have shift: "\<And>j. j - x pos - int (Suc c) = j - x pos - int c - 1" by simp
  show ?case
  proof (cases "truthy v \<and> y pos + int r < int ROWS \<and> x pos + int c < int COLS")
    case True
    with Cons.prems obtain g1 where g1: "setAt g (y pos + int r) (x pos + int c) v = Inr g1"
        and rest: "merge_row g1 vs pos r (Suc c) = Inr g'"
      by (auto split: sum.splits)
    note w = setAt_Inr [OF g1]
    from Cons.IH [OF rest] have len: "length g' = length g1"
      and cells: "\<And>i j. cellAt g' i j =
       (if i = y pos + int r \<and> i < int ROWS \<and> 0 \<le> j \<and> j < int COLS \<and>
           truthy (cellOf vs (j - x pos - int c - 1))
        then cellOf vs (j - x pos - int c - 1) else cellAt g1 i j)"
      unfolding shift by blast+
    have "cellAt g' i j =
       (if i = y pos + int r \<and> i < int ROWS \<and> 0 \<le> j \<and> j < int COLS \<and>
           truthy (cellOf (v # vs) (j - x pos - int c))
        then cellOf (v # vs) (j - x pos - int c) else cellAt g i j)" for i j
    proof (cases "j = x pos + int c")
      case here: True
      then have "cellOf vs (j - x pos - int c - 1) = None"
        by (simp add: cellOf_neg)
      with here True show ?thesis
        by (simp add: cells w(4) cellOf_Cons truthy_None)
    next
      case False
      then show ?thesis
        by (simp add: cells w(4) cellOf_Cons)
    qed
    with len w(3) show ?thesis by simp
  next
    case False
    with Cons.prems have rest: "merge_row g vs pos r (Suc c) = Inr g'"
      by auto
    from Cons.IH [OF rest] have len: "length g' = length g"
      and cells: "\<And>i j. cellAt g' i j =
       (if i = y pos + int r \<and> i < int ROWS \<and> 0 \<le> j \<and> j < int COLS \<and>
           truthy (cellOf vs (j - x pos - int c - 1))
        then cellOf vs (j - x pos - int c - 1) else cellAt g i j)"
      unfolding shift by blast+
    have "cellAt g' i j =
       (if i = y pos + int r \<and> i < int ROWS \<and> 0 \<le> j \<and> j < int COLS \<and>
           truthy (cellOf (v # vs) (j - x pos - int c))
        then cellOf (v # vs) (j - x pos - int c) else cellAt g i j)" for i j
    proof (cases "j = x pos + int c")
      case here: True
      then have "cellOf vs (j - x pos - int c - 1) = None"
        by (simp add: cellOf_neg)
      with here False show ?thesis
        by (auto simp: cells cellOf_Cons truthy_None)
    next
      case False
      then show ?thesis
        by (simp add: cells cellOf_Cons)
    qed
    with len show ?thesis by simp
  qed
qed

lemma merge_rows_Inr:
  assumes "merge_rows g rows pos r = Inr g'"
  shows "length g' = length g \<and>
    (\<forall>i j. cellAt g' i j =
       (if i < int ROWS \<and> 0 \<le> j \<and> j < int COLS \<and>
           truthy (cellAt rows (i - y pos - int r) (j - x pos))
        then cellAt rows (i - y pos - int r) (j - x pos) else cellAt g i j))"
  using assms
proof (induction rows arbitrary: g r)
  case Nil
  then show ?case by (simp add: cellAt_Nil truthy_None)
next
  case (Cons row rows)
  have shift: "\<And>i. i - y pos - int (Suc r) = i - y pos - int r - 1" by simp
  from Cons.prems obtain g1 where g1: "merge_row g row pos r 0 = Inr g1"
      and rest: "merge_rows g1 rows pos (Suc r) = Inr g'"
    by (auto split: sum.splits)
  from merge_row_Inr [OF g1] have len1: "length g1 = length g"
    and cells1: "\<And>i j. cellAt g1 i j =
       (if i = y pos + int r \<and> i < int ROWS \<and> 0 \<le> j \<and> j < int COLS \<and>
           truthy (cellOf row (j - x pos))
        then cellOf row (j - x pos) else cellAt g i j)"
    by simp_all
  from Cons.IH [OF rest] have len: "length g' = length g1"
    and cells: "\<And>i j. cellAt g' i j =
       (if i < int ROWS \<and> 0 \<le> j \<and> j < int COLS \<and>
           truthy (cellAt rows (i - y pos - int r - 1) (j - x pos))
        then cellAt rows (i - y pos - int r - 1) (j - x pos) else cellAt g1 i j)"
    unfolding shift by blast+
  have "cellAt g' i j =
       (if i < int ROWS \<and> 0 \<le> j \<and> j < int COLS \<and>
           truthy (cellAt (row # rows) (i - y pos - int r) (j - x pos))
        then cellAt (row # rows) (i - y pos - int r) (j - x pos) else cellAt g i j)" for i j
  proof (cases "i = y pos + int r")
    case True
    then have "cellAt rows (i - y pos - int r - 1) (j - x pos) = None"
      by (simp add: cellAt_neg)
    with True show ?thesis
      by (simp add: cells cells1 cellAt_Cons truthy_None)
  next
    case False
    then show ?thesis
      by (simp add: cells cells1 cellAt_Cons)
  qed
  with len len1 show ?case by simp
qed

lemma merge_Inr:
  assumes "merge g t pos = Inr g'"
  shows "length g' = length g"
    and "cellAt g' i j =
       (if i < int ROWS \<and> 0 \<le> j \<and> j < int COLS \<and> truthy (cellAt t (i - y pos) (j - x pos))
        then cellAt t (i - y pos) (j - x pos) else cellAt g i j)"
  using merge_rows_Inr [of g t pos 0 g'] assms by (simp_all add: merge_def)

lemma ex_truthy_cellOf_Cons:
  "(\<exists>k. truthy (cellOf (v # vs) k) \<and> P k) \<longleftrightarrow>
     (truthy v \<and> P 0) \<or> (\<exists>k. truthy (cellOf vs k) \<and> P (k + 1))"
proof
  assume "\<exists>k. truthy (cellOf (v # vs) k) \<and> P k"
  then obtain k where k: "truthy (cellOf (v # vs) k)" "P k" by blast
  show "(truthy v \<and> P 0) \<or> (\<exists>k. truthy (cellOf vs k) \<and> P (k + 1))"
  proof (cases "k = 0")
    case True
    with k show ?thesis by (simp add: cellOf_Cons)
  next
    case False
    with k have "truthy (cellOf vs (k - 1))" "P ((k - 1) + 1)"
      by (simp_all add: cellOf_Cons)
    then show ?thesis by blast
  qed
next
  assume "(truthy v \<and> P 0) \<or> (\<exists>k. truthy (cellOf vs k) \<and> P (k + 1))"
  then show "\<exists>k. truthy (cellOf (v # vs) k) \<and> P k"
  proof
    assume "truthy v \<and> P 0"
    then have "truthy (cellOf (v # vs) 0) \<and> P 0" by (simp add: cellOf_Cons)
    then show ?thesis by blast
  next
    assume "\<exists>k. truthy (cellOf vs k) \<and> P (k + 1)"
    then obtain k where k: "truthy (cellOf vs k)" "P (k + 1)" by blast
    then have "k + 1 \<noteq> 0"
      by (cases "k < 0") (auto simp: cellOf_neg truthy_None)
    with k have "truthy (cellOf (v # vs) (k + 1)) \<and> P (k + 1)"
      by (simp add: cellOf_Cons)
    then show ?thesis by blast
  qed
qed

lemma ex_truthy_cellAt_Cons:
  "(\<exists>k c. truthy (cellAt (row # rows) k c) \<and> P k c) \<longleftrightarrow>
     (\<exists>c. truthy (cellOf row c) \<and> P 0 c) \<or> (\<exists>k c. truthy (cellAt rows k c) \<and> P (k + 1) c)"
proof
  assume "\<exists>k c. truthy (cellAt (row # rows) k c) \<and> P k c"
  then obtain k c where k: "truthy (cellAt (row # rows) k c)" "P k c" by blast
  show "(\<exists>c. truthy (cellOf row c) \<and> P 0 c) \<or> (\<exists>k c. truthy (cellAt rows k c) \<and> P (k + 1) c)"
  proof (cases "k = 0")
    case True
    with k show ?thesis by (auto simp: cellAt_Cons)
  next
    case False
    with k have "truthy (cellAt rows (k - 1) c)" "P ((k - 1) + 1) c"
      by (simp_all add: cellAt_Cons)
    then show ?thesis by blast
  qed
next
  assume "(\<exists>c. truthy (cellOf row c) \<and> P 0 c) \<or> (\<exists>k c. truthy (cellAt rows k c) \<and> P (k + 1) c)"
  then show "\<exists>k c. truthy (cellAt (row # rows) k c) \<and> P k c"
  proof
    assume "\<exists>c. truthy (cellOf row c) \<and> P 0 c"
    then obtain c where "truthy (cellAt (row # rows) 0 c) \<and> P 0 c"
      by (auto simp: cellAt_Cons)
    then show ?thesis by blast
  next
    assume "\<exists>k c. truthy (cellAt rows k c) \<and> P (k + 1) c"
    then obtain k c where k: "truthy (cellAt rows k c)" "P (k + 1) c" by blast
    then have "k + 1 \<noteq> 0"
      by (cases "k < 0") (auto simp: cellAt_neg truthy_None)
    with k have "truthy (cellAt (row # rows) (k + 1) c) \<and> P (k + 1) c"
      by (simp add: cellAt_Cons)
    then show ?thesis by blast
  qed
qed

lemma merge_row_Inl:
  "merge_row g vs pos r c = Inl e \<longleftrightarrow>
     y pos + int r < int ROWS \<and> \<not> (0 \<le> y pos + int r \<and> y pos + int r < int (length g)) \<and>
     (\<exists>k. truthy (cellOf vs k) \<and> x pos + int c + k < int COLS)"
proof (induction vs arbitrary: g c)
  case Nil
  show ?case by (simp add: cellOf_Nil truthy_None)
next
  case (Cons v vs)
  have shift: "\<And>k. x pos + int (Suc c) + k = x pos + int c + (k + 1)" by simp
  show ?case
  proof (cases "truthy v \<and> y pos + int r < int ROWS \<and> x pos + int c < int COLS")
    case True
    show ?thesis
    proof (cases "setAt g (y pos + int r) (x pos + int c) v")
      case (Inl e')
      then have "\<not> (0 \<le> y pos + int r \<and> y pos + int r < int (length g))"
        by (simp add: setAt_Inl)
      with True Inl show ?thesis
        by (cases e, cases e') (auto simp: ex_truthy_cellOf_Cons)
    next
      case (Inr g1)
      note w = setAt_Inr(1-3) [OF Inr]
      from True Inr have "merge_row g (v # vs) pos r c = merge_row g1 vs pos r (Suc c)"
        by simp
      with w show ?thesis
        by (simp add: Cons.IH)
    qed
  next
    case False
    then have "merge_row g (v # vs) pos r c = merge_row g vs pos r (Suc c)"
      by auto
    with False show ?thesis
      unfolding ex_truthy_cellOf_Cons by (auto simp: Cons.IH shift)
  qed
qed

lemma merge_rows_Inl:
  "merge_rows g rows pos r = Inl e \<longleftrightarrow>
     (\<exists>k c. truthy (cellAt rows k c) \<and> y pos + int r + k < int ROWS \<and> x pos + c < int COLS \<and>
        \<not> (0 \<le> y pos + int r + k \<and> y pos + int r + k < int (length g)))"
proof (induction rows arbitrary: g r)
  case Nil
  show ?case by (simp add: cellAt_Nil truthy_None)
next
  case (Cons row rows)
  have shift: "\<And>k. y pos + int (Suc r) + k = y pos + int r + (k + 1)" by simp
  show ?case
  proof (cases "merge_row g row pos r 0")
    case (Inl e')
    then have "merge_rows g (row # rows) pos r = Inl e"
      by (cases e, cases e') simp
    moreover from Inl have "y pos + int r < int ROWS \<and>
        \<not> (0 \<le> y pos + int r \<and> y pos + int r < int (length g)) \<and>
        (\<exists>c. truthy (cellOf row c) \<and> x pos + c < int COLS)"
      by (simp add: merge_row_Inl)
    ultimately show ?thesis
      unfolding ex_truthy_cellAt_Cons by auto
  next
    case (Inr g1)
    from merge_row_Inr [OF Inr] have len: "length g1 = length g" by simp
    have "\<not> (y pos + int r < int ROWS \<and>
        \<not> (0 \<le> y pos + int r \<and> y pos + int r < int (length g)) \<and>
        (\<exists>c. truthy (cellOf row c) \<and> x pos + int 0 + c < int COLS))"
      using Inr merge_row_Inl [of g row pos r 0 TypeError] by simp
    then have no: "\<not> (\<exists>c. truthy (cellOf row c) \<and> y pos + int r + 0 < int ROWS \<and>
        x pos + c < int COLS \<and>
        \<not> (0 \<le> y pos + int r + 0 \<and> y pos + int r + 0 < int (length g)))"
      by auto
    from Inr have "merge_rows g (row # rows) pos r = Inl e \<longleftrightarrow>
        merge_rows g1 rows pos (Suc r) = Inl e"
      by simp
    also have "\<dots> \<longleftrightarrow>
        (\<exists>k c. truthy (cellAt rows k c) \<and> y pos + int r + (k + 1) < int ROWS \<and>
           x pos + c < int COLS \<and>
           \<not> (0 \<le> y pos + int r + (k + 1) \<and> y pos + int r + (k + 1) < int (length g)))"
      by (simp only: Cons.IH len shift)
    also have "\<dots> \<longleftrightarrow>
        (\<exists>k c. truthy (cellAt (row # rows) k c) \<and> y pos + int r + k < int ROWS \<and>
           x pos + c < int COLS \<and>
           \<not> (0 \<le> y pos + int r + k \<and> y pos + int r + k < int (length g)))"
      unfolding ex_truthy_cellAt_Cons using no by blast
    finally show ?thesis .
  qed
qed

lemma merge_Inl:
  "merge g t pos = Inl e \<longleftrightarrow>
     (\<exists>r c. truthy (cellAt t r c) \<and> y pos + r < int ROWS \<and> x pos + c < int COLS \<and>
        \<not> (0 \<le> y pos + r \<and> y pos + r < int (length g)))"
  using merge_rows_Inl [of g t pos 0 e] by (simp add: merge_def)

lemma merge_succeeds:
  assumes "\<And>r c. truthy (cellAt t r c) \<Longrightarrow> y pos + r < int ROWS \<Longrightarrow> x pos + c < int COLS \<Longrightarrow>
     0 \<le> y pos + r \<and> y pos + r < int (length g)"
  shows "\<exists>m. merge g t pos = Inr m"
proof (cases "merge g t pos")
  case (Inl e)
  then obtain r c where "truthy (cellAt t r c)" "y pos + r < int ROWS" "x pos + c < int COLS"
      "\<not> (0 \<le> y pos + r \<and> y pos + r < int (length g))"
    unfolding merge_Inl by blast
  with assms show ?thesis by blast
next
  case (Inr m)
  then show ?thesis by blast
qed

text \<open>
  Claim C10. For a grid of \<open>ROWS\<close> rows, a piece and a position that do not collide and
  that put every filled cell of the piece on a row \<open>\<ge> 0\<close> and a column \<open>\<ge> 0\<close>, \<open>merge\<close>
  returns a grid in which every occupied cell of the input keeps its value, and the cells
  that were unoccupied and are now occupied are exactly the cells under a filled cell of
  the piece.
\<close>

theorem merge_keeps_occupied:
  assumes rows: "length g = ROWS"
    and free: "\<not> isColliding g t pos"
    and inside: "\<forall>r c. truthy (cellAt t r c) \<longrightarrow> 0 \<le> y pos + r \<and> 0 \<le> x pos + c"
  shows "\<exists>m. merge g t pos = Inr m \<and>
           (\<forall>i j. truthy (cellAt g i j) \<longrightarrow> cellAt m i j = cellAt g i j) \<and>
           (\<forall>i j. \<not> truthy (cellAt g i j) \<and> truthy (cellAt m i j) \<longleftrightarrow>
                  truthy (cellAt t (i - y pos) (j - x pos)))"
proof -
  have piece: "i < int ROWS \<and> 0 \<le> i \<and> 0 \<le> j \<and> j < int COLS \<and> \<not> truthy (cellAt g i j)"
    if "truthy (cellAt t (i - y pos) (j - x pos))" for i j
  proof -
    from free that have "\<not> blocked g (y pos + (i - y pos)) (x pos + (j - x pos))"
      unfolding isColliding_iff by blast
    moreover from inside that have "0 \<le> y pos + (i - y pos)"
      by blast
    ultimately show ?thesis
      by (simp add: blocked_def)
  qed
  have "\<exists>m. merge g t pos = Inr m"
  proof (rule merge_succeeds)
    fix r c assume "truthy (cellAt t r c)" "y pos + r < int ROWS"
    with inside rows show "0 \<le> y pos + r \<and> y pos + r < int (length g)"
      by simp
  qed
  then obtain m where ok: "merge g t pos = Inr m" by blast
  note cells = merge_Inr(2) [OF ok]
  have "cellAt m i j = cellAt g i j" if "truthy (cellAt g i j)" for i j
    using that piece [of i j] by (auto simp: cells)
  moreover have "\<not> truthy (cellAt g i j) \<and> truthy (cellAt m i j) \<longleftrightarrow>
      truthy (cellAt t (i - y pos) (j - x pos))" for i j
    using piece [of i j] by (auto simp: cells)
  ultimately show ?thesis
    using ok by blast
qed

theorem merge_keeps_occupied_witness:
  "length (createGrid[19 := replicate COLS (Some 1)]) = ROWS \<and>
   \<not> isColliding (createGrid[19 := replicate COLS (Some 1)]) (TETROMINOS KT) \<lparr>x = 4, y = 17\<rparr> \<and>
   (\<exists>m. merge (createGrid[19 := replicate COLS (Some 1)]) (TETROMINOS KT) \<lparr>x = 4, y = 17\<rparr> = Inr m \<and>
        cellAt m 19 0 = Some 1 \<and> truthy (cellAt m 17 5) \<and> \<not> truthy (cellAt m 17 4))"
proof -
  let ?g = "createGrid[19 := replicate COLS (Some 1)]"
  let ?p = "\<lparr>x = 4, y = 17\<rparr>"
  have rows: "length ?g = ROWS"
    by (simp add: createGrid_def)
  have free: "\<not> isColliding ?g (TETROMINOS KT) ?p"
    by code_simp
  have inside: "\<forall>r c. truthy (cellAt (TETROMINOS KT) r c) \<longrightarrow> 0 \<le> y ?p + r \<and> 0 \<le> x ?p + c"
    by (simp add: truthy_cellAt_iff)
  have g: "cellAt ?g 19 0 = Some 1" "\<not> truthy (cellAt ?g 17 5)" "\<not> truthy (cellAt ?g 17 4)"
    by code_simp+
  have t: "truthy (cellAt (TETROMINOS KT) (17 - y ?p) (5 - x ?p))"
      "\<not> truthy (cellAt (TETROMINOS KT) (17 - y ?p) (4 - x ?p))"
    by code_simp+
  from merge_keeps_occupied [OF rows free inside] obtain m where
    m: "merge ?g (TETROMINOS KT) ?p = Inr m"
    and keep: "\<And>i j. truthy (cellAt ?g i j) \<Longrightarrow> cellAt m i j = cellAt ?g i j"
    and new: "\<And>i j. \<not> truthy (cellAt ?g i j) \<and> truthy (cellAt m i j) \<longleftrightarrow>
        truthy (cellAt (TETROMINOS KT) (i - y ?p) (j - x ?p))"
    by blast
  from g(1) have "truthy (cellAt ?g 19 0)" by (simp add: truthy_def)
  from keep [OF this] g(1) have "cellAt m 19 0 = Some 1" by simp
  moreover from new [of 17 5] t(1) have "truthy (cellAt m 17 5)" by blast
  moreover from new [of 17 4] t(2) g(3) have "\<not> truthy (cellAt m 17 4)" by blast
  ultimately show ?thesis
    using rows free m by blast
qed

section \<open>Properties of merging in the store\<close>

lemma copyRows_spec:
  "copyRows st g = (st1, bs) \<Longrightarrow>
     length bs = length g \<and> distinct bs \<and> fresh st \<le> fresh st1 \<and>
     (\<forall>b \<in> set bs. fresh st \<le> b \<and> b < fresh st1) \<and>
     (\<forall>a < fresh st. rowAt st1 a = rowAt st a) \<and>
     ((\<forall>a \<in> set g. a < fresh st) \<longrightarrow> view st1 bs = view st g)"
proof (induction g arbitrary: st bs)
  case Nil
  then show ?case by (simp add: view_def)
next
  case (Cons a as)
  define st' where "st' = st\<lparr>rowAt := (rowAt st)(fresh st := rowAt st a), fresh := Suc (fresh st)\<rparr>"
  from Cons.prems obtain bs' where rest: "copyRows st' as = (st1, bs')" and bs: "bs = fresh st # bs'"
    by (auto simp: copyRow_def st'_def split: prod.splits)
  have f': "fresh st' = Suc (fresh st)" by (simp add: st'_def)
  from Cons.IH [OF rest] have len: "length bs' = length as" and dist: "distinct bs'"
    and mono: "fresh st' \<le> fresh st1"
    and new: "\<forall>b \<in> set bs'. fresh st' \<le> b \<and> b < fresh st1"
    and old: "\<forall>b < fresh st'. rowAt st1 b = rowAt st' b"
    and same: "(\<forall>b \<in> set as. b < fresh st') \<longrightarrow> view st1 bs' = view st' as"
    by blast+
  have 1: "length bs = length (a # as)"
    using len bs by simp
  have 2: "distinct bs"
    using dist new bs f' by auto
  have 3: "fresh st \<le> fresh st1"
    using mono f' by simp
  have 4: "\<forall>b \<in> set bs. fresh st \<le> b \<and> b < fresh st1"
    using new mono bs f' by auto
  have 5: "\<forall>b < fresh st. rowAt st1 b = rowAt st b"
  proof (intro allI impI)
    fix b assume b: "b < fresh st"
    then have "b < fresh st'" by (simp add: f')
    with old have "rowAt st1 b = rowAt st' b" by blast
    with b show "rowAt st1 b = rowAt st b" by (simp add: st'_def)
  qed
  have 6: "(\<forall>b \<in> set (a # as). b < fresh st) \<longrightarrow> view st1 bs = view st (a # as)"
  proof
    assume alloc: "\<forall>b \<in> set (a # as). b < fresh st"
    then have "\<forall>b \<in> set as. b < fresh st'" by (auto simp: f')
    with same have "view st1 bs' = view st' as" by blast
    also from alloc have "view st' as = view st as"
      by (auto simp: view_def st'_def)
    finally have tl: "view st1 bs' = view st as" .
    have "fresh st < fresh st'" by (simp add: f')
    with old have "rowAt st1 (fresh st) = rowAt st' (fresh st)" by blast
    then have "rowAt st1 (fresh st) = rowAt st a" by (simp add: st'_def)
    with tl bs show "view st1 bs = view st (a # as)" by (simp add: view_def)
  qed
  from 1 2 3 4 5 6 show ?case by blast
qed

lemma map_fun_upd_nth:
  assumes "distinct bs" "k < length bs"
  shows "map (f(bs ! k := v)) bs = (map f bs)[k := v]"
proof (rule nth_equalityI)
  show "length (map (f(bs ! k := v)) bs) = length ((map f bs)[k := v])" by simp
next
  fix n assume "n < length (map (f(bs ! k := v)) bs)"
  then have n: "n < length bs" by simp
  with assms have "bs ! n = bs ! k \<longleftrightarrow> n = k"
    by (simp add: nth_eq_iff_index_eq)
  with n assms(2) show "map (f(bs ! k := v)) bs ! n = (map f bs)[k := v] ! n"
    by (auto simp: nth_list_update)
qed

lemma setAt_store_sim:
  assumes "distinct bs"
  shows "case setAt_store st bs i j v of
           Inl e \<Rightarrow> setAt (view st bs) i j v = Inl e
         | Inr st' \<Rightarrow> setAt (view st bs) i j v = Inr (view st' bs) \<and> fresh st' = fresh st \<and>
                      (\<forall>a. a \<notin> set bs \<longrightarrow> rowAt st' a = rowAt st a)"
proof (cases "0 \<le> i \<and> i < int (length bs)")
  case True
  then have k: "nat i < length bs" by linarith
  from True k have "at bs i = Some (bs ! nat i)" "at (view st bs) i = Some (rowAt st (bs ! nat i))"
    by (simp_all add: at_def view_def)
  moreover have "bs ! nat i \<in> set bs" using k by simp
  ultimately show ?thesis
    using map_fun_upd_nth [OF assms k, of "rowAt st"]
    by (auto simp: setAt_store_def setAt_def view_def)
next
  case False
  then have "at bs i = None" "at (view st bs) i = None"
    by (auto simp: at_def view_def)
  then show ?thesis
    by (simp add: setAt_store_def setAt_def)
qed

lemma merge_row_store_sim:
  assumes "distinct bs"
  shows "case merge_row_store st bs vs pos r c of
           Inl e \<Rightarrow> merge_row (view st bs) vs pos r c = Inl e
         | Inr st' \<Rightarrow> merge_row (view st bs) vs pos r c = Inr (view st' bs) \<and>
                      fresh st' = fresh st \<and>
                      (\<forall>a. a \<notin> set bs \<longrightarrow> rowAt st' a = rowAt st a)"
proof (induction vs arbitrary: st c)
  case Nil
  show ?case by simp
next
  case (Cons v vs)
  show ?case
  proof (cases "truthy v \<and> y pos + int r < int ROWS \<and> x pos + int c < int COLS")
    case True
    show ?thesis
    proof (cases "setAt_store st bs (y pos + int r) (x pos + int c) v")
      case (Inl e)
      with setAt_store_sim [OF assms, of st "y pos + int r" "x pos + int c" v] True
      show ?thesis by simp
    next
      case (Inr st1)
      with setAt_store_sim [OF assms, of st "y pos + int r" "x pos + int c" v]
      have w: "setAt (view st bs) (y pos + int r) (x pos + int c) v = Inr (view st1 bs)"
        "fresh st1 = fresh st" "\<forall>a. a \<notin> set bs \<longrightarrow> rowAt st1 a = rowAt st a"
        by simp_all
      from Cons.IH [of st1 "Suc c"] True Inr w show ?thesis
        by (auto split: sum.splits)
    qed
  next
    case False
    with Cons.IH [of st "Suc c"] show ?thesis
      by (auto split: sum.splits)
  qed
qed

lemma merge_rows_store_sim:
  assumes "distinct bs"
  shows "case merge_rows_store st bs rows pos r of
           Inl e \<Rightarrow> merge_rows (view st bs) rows pos r = Inl e
         | Inr st' \<Rightarrow> merge_rows (view st bs) rows pos r = Inr (view st' bs) \<and>
                      fresh st' = fresh st \<and>
                      (\<forall>a. a \<notin> set bs \<longrightarrow> rowAt st' a = rowAt st a)"
proof (induction rows arbitrary: st r)
  case Nil
  show ?case by simp
next
  case (Cons row rows)
  show ?case
  proof (cases "merge_row_store st bs row pos r 0")
    case (Inl e)
    with merge_row_store_sim [OF assms, of st row pos r 0] show ?thesis by simp
  next
    case (Inr st1)
    with merge_row_store_sim [OF assms, of st row pos r 0]
    have w: "merge_row (view st bs) row pos r 0 = Inr (view st1 bs)"
      "fresh st1 = fresh st" "\<forall>a. a \<notin> set bs \<longrightarrow> rowAt st1 a = rowAt st a"
      by simp_all
    from Cons.IH [of st1 "Suc r"] Inr w show ?thesis
      by (auto split: sum.splits)
  qed
qed

lemma merge_store_sim:
  assumes alloc: "\<forall>a \<in> set g. a < fresh st"
  shows "case merge_store st g t pos of
           Inl e \<Rightarrow> merge (view st g) t pos = Inl e
         | Inr (st', g') \<Rightarrow>
             merge (view st g) t pos = Inr (view st' g') \<and> length g' = length g \<and>
             distinct g' \<and> (\<forall>b \<in> set g'. fresh st \<le> b) \<and>
             (\<forall>a < fresh st. rowAt st' a = rowAt st a)"
proof -
  obtain st1 bs where copy: "copyRows st g = (st1, bs)"
    by (cases "copyRows st g") blast
  from copyRows_spec [OF copy] alloc have len: "length bs = length g" and dist: "distinct bs"
    and new: "\<forall>b \<in> set bs. fresh st \<le> b"
    and old: "\<forall>a < fresh st. rowAt st1 a = rowAt st a"
    and same: "view st1 bs = view st g"
    by auto
  have m: "merge (view st g) t pos = merge_rows (view st1 bs) t pos 0"
    by (simp add: merge_def same)
  show ?thesis
  proof (cases "merge_rows_store st1 bs t pos 0")
    case (Inl e)
    with merge_rows_store_sim [OF dist, of st1 t pos 0] copy m show ?thesis
      by (simp add: merge_store_def)
  next
    case (Inr st2)
    with merge_rows_store_sim [OF dist, of st1 t pos 0]
    have res: "merge_rows (view st1 bs) t pos 0 = Inr (view st2 bs)"
      and frame: "\<forall>a. a \<notin> set bs \<longrightarrow> rowAt st2 a = rowAt st1 a"
      by simp_all
    have "\<forall>a < fresh st. rowAt st2 a = rowAt st a"
    proof (intro allI impI)
      fix a assume a: "a < fresh st"
      with new have "a \<notin> set bs" by auto
      with frame old a show "rowAt st2 a = rowAt st a" by simp
    qed
    with Inr copy m res len dist new show ?thesis
      by (simp add: merge_store_def)
  qed
qed

text \<open>
  Claim C4, amended. The claim says that a filled cell whose target row is negative is
  dropped without an error; \<open>merge\<close> raises a \<^verbatim>\<open>TypeError\<close> there, because
  \<^verbatim>\<open>newGrid[-1]\<close> is \<^verbatim>\<open>undefined\<close> (the counterexample below). What holds: for a grid of
  \<open>ROWS\<close> rows whose row arrays are in the store, and a piece and position where no filled
  cell left of column \<open>COLS\<close> has a negative target row, \<open>merge\<close> returns a grid of \<open>ROWS\<close>
  new row arrays and changes no array that existed before, so the input grid is as it was;
  the result is the value that \<open>merge\<close> computes on matrices; in it every cell of the
  playfield under a filled cell of the piece holds that cell of the piece, and every other
  cell is the cell of the input grid (filled cells that land below row \<open>ROWS - 1\<close> or right
  of column \<open>COLS - 1\<close> are dropped).
\<close>

theorem merge_spec:
  assumes alloc: "\<forall>a \<in> set g. a < fresh st"
    and rows: "length g = ROWS"
    and above: "\<forall>r c. truthy (cellAt t r c) \<and> x pos + c < int COLS \<longrightarrow> 0 \<le> y pos + r"
  shows "\<exists>st' g'. merge_store st g t pos = Inr (st', g') \<and>
           (\<forall>a < fresh st. rowAt st' a = rowAt st a) \<and>
           view st' g = view st g \<and>
           (\<forall>b \<in> set g'. fresh st \<le> b) \<and>
           length g' = ROWS \<and>
           merge (view st g) t pos = Inr (view st' g') \<and>
           (\<forall>i j. cellAt (view st' g') i j =
              (if inField i j \<and> truthy (cellAt t (i - y pos) (j - x pos))
               then cellAt t (i - y pos) (j - x pos) else cellAt (view st g) i j))"
proof -
  have "\<exists>m. merge (view st g) t pos = Inr m"
  proof (rule merge_succeeds)
    fix r c assume "truthy (cellAt t r c)" "y pos + r < int ROWS" "x pos + c < int COLS"
    with above have "0 \<le> y pos + r" by blast
    with \<open>y pos + r < int ROWS\<close> rows
    show "0 \<le> y pos + r \<and> y pos + r < int (length (view st g))"
      by (simp add: view_def)
  qed
  then obtain m where m: "merge (view st g) t pos = Inr m" by blast
  with merge_store_sim [OF alloc, of t pos] obtain st' g' where
    res: "merge_store st g t pos = Inr (st', g')" and v: "view st' g' = m"
    and len: "length g' = length g" and new: "\<forall>b \<in> set g'. fresh st \<le> b"
    and old: "\<forall>a < fresh st. rowAt st' a = rowAt st a"
    by (cases "merge_store st g t pos") auto
  from old alloc have same: "view st' g = view st g"
    by (simp add: view_def)
  have "cellAt (view st' g') i j =
      (if inField i j \<and> truthy (cellAt t (i - y pos) (j - x pos))
       then cellAt t (i - y pos) (j - x pos) else cellAt (view st g) i j)" for i j
  proof -
    have "0 \<le> i" if "truthy (cellAt t (i - y pos) (j - x pos))" "j < int COLS"
      using above that by force
    then show ?thesis
      unfolding v merge_Inr(2) [OF m] inField_def by auto
  qed
  with res old same new len rows m v show ?thesis
    by simp
qed

text \<open>
  The I piece one row above the grid: all four filled cells have target row \<open>-1\<close>, and
  \<open>merge\<close> raises instead of returning a grid, on matrices and in the store.
\<close>

theorem merge_negative_row_counterexample:
  "merge createGrid (TETROMINOS KI) \<lparr>x = 4, y = - 1\<rparr> = Inl TypeError \<and>
   isl (merge_store \<lparr>rowAt = \<lambda>a. replicate COLS (Some 0), fresh = ROWS\<rparr> [0 ..< ROWS]
     (TETROMINOS KI) \<lparr>x = 4, y = - 1\<rparr>)"
  by code_simp

theorem merge_spec_witness:
  "\<exists>st' g'.
     merge_store \<lparr>rowAt = \<lambda>a. replicate COLS (Some 0), fresh = ROWS\<rparr> [0 ..< ROWS]
       (TETROMINOS KT) \<lparr>x = 4, y = 18\<rparr> = Inr (st', g') \<and>
     view st' [0 ..< ROWS] = createGrid \<and> length g' = ROWS \<and>
     cellAt (view st' g') 18 4 = Some 0 \<and> cellAt (view st' g') 18 5 = Some 1 \<and>
     cellAt (view st' g') 19 4 = Some 1 \<and> cellAt (view st' g') 20 4 = None"
proof -
  let ?st = "\<lparr>rowAt = \<lambda>a. replicate COLS (Some (0::int)), fresh = ROWS\<rparr>"
  let ?p = "\<lparr>x = 4, y = 18\<rparr>"
  have alloc: "\<forall>a \<in> set [0 ..< ROWS]. a < fresh ?st"
    and rows: "length [0 ..< ROWS] = ROWS"
    by simp_all
  have above: "\<forall>r c. truthy (cellAt (TETROMINOS KT) r c) \<and> x ?p + c < int COLS \<longrightarrow> 0 \<le> y ?p + r"
    by (simp add: truthy_cellAt_iff)
  have g: "view ?st [0 ..< ROWS] = createGrid"
    by (simp add: view_def createGrid_def map_replicate_const)
  have t: "cellAt (TETROMINOS KT) (18 - y ?p) (4 - x ?p) = Some 0"
    "cellAt (TETROMINOS KT) (18 - y ?p) (5 - x ?p) = Some 1"
    "cellAt (TETROMINOS KT) (19 - y ?p) (4 - x ?p) = Some 1"
    "cellAt createGrid 18 4 = Some 0" "cellAt createGrid 20 4 = None"
    "inField 18 4" "inField 18 5" "inField 19 4" "\<not> inField 20 4"
    by code_simp+
  from merge_spec [OF alloc rows above] obtain st' g' where
    res: "merge_store ?st [0 ..< ROWS] (TETROMINOS KT) ?p = Inr (st', g')"
    and same: "view st' [0 ..< ROWS] = view ?st [0 ..< ROWS]"
    and len: "length g' = ROWS"
    and cells: "\<And>i j. cellAt (view st' g') i j =
        (if inField i j \<and> truthy (cellAt (TETROMINOS KT) (i - y ?p) (j - x ?p))
         then cellAt (TETROMINOS KT) (i - y ?p) (j - x ?p)
         else cellAt (view ?st [0 ..< ROWS]) i j)"
    by blast
  have "cellAt (view st' g') 18 4 = Some 0" "cellAt (view st' g') 18 5 = Some 1"
    "cellAt (view st' g') 19 4 = Some 1" "cellAt (view st' g') 20 4 = None"
    unfolding cells g using t by (simp_all add: truthy_def)
  with res same len g show ?thesis
    by simp
qed

section \<open>Properties of the commands\<close>

text \<open>
  Claim C5. In a running game whose piece collides one row further down and whose position
  has \<open>y = 0\<close>, \<open>dropTetromino\<close> sets \<open>gameOver\<close> and changes nothing else: the grid is the
  grid before the tick.
\<close>

theorem dropTetromino_game_over:
  assumes "\<not> isPaused s" "\<not> gameOver s"
    and "isColliding (grid s) (tetromino s) \<lparr>x = x (position s), y = y (position s) + 1\<rparr>"
    and "y (position s) = 0"
  shows "dropTetromino k s = Inr (s\<lparr>gameOver := True\<rparr>) \<and>
         grid (s\<lparr>gameOver := True\<rparr>) = grid s \<and> gameOver (s\<lparr>gameOver := True\<rparr>)"
  using assms by (simp add: dropTetromino_def Let_def)

theorem dropTetromino_game_over_witness:
  "isColliding (createGrid[2 := replicate COLS (Some 1)]) (TETROMINOS KO) \<lparr>x = 4, y = 0 + 1\<rparr> \<and>
   dropTetromino 0
     \<lparr>grid = createGrid[2 := replicate COLS (Some 1)], position = \<lparr>x = 4, y = 0\<rparr>,
      tetromino = TETROMINOS KO, gameOver = False, isPaused = False\<rparr> =
   Inr \<lparr>grid = createGrid[2 := replicate COLS (Some 1)], position = \<lparr>x = 4, y = 0\<rparr>,
      tetromino = TETROMINOS KO, gameOver = True, isPaused = False\<rparr>"
proof -
  have hit: "isColliding (createGrid[2 := replicate COLS (Some 1)]) (TETROMINOS KO)
      \<lparr>x = 4, y = 0 + 1\<rparr>"
    by code_simp
  show ?thesis
    using hit dropTetromino_game_over [of
        "\<lparr>grid = createGrid[2 := replicate COLS (Some 1)], position = \<lparr>x = 4, y = 0\<rparr>,
          tetromino = TETROMINOS KO, gameOver = False, isPaused = False\<rparr>" 0]
    by simp
qed

text \<open>
  Claim C8. In a game that is paused or over, moving (by any \<open>dir\<close>), rotating and dropping
  return the state as it is: grid, piece and position are unchanged.
\<close>

theorem not_running_noop:
  assumes "isPaused s \<or> gameOver s"
  shows "moveTetromino dir s = s \<and> rotateTetromino s = Inr s \<and> dropTetromino k s = Inr s"
  using assms by (auto simp: moveTetromino_def rotateTetromino_def dropTetromino_def)

theorem not_running_noop_witness:
  "moveTetromino 1
     \<lparr>grid = createGrid, position = spawn, tetromino = TETROMINOS KT,
      gameOver = False, isPaused = True\<rparr> =
     \<lparr>grid = createGrid, position = spawn, tetromino = TETROMINOS KT,
      gameOver = False, isPaused = True\<rparr> \<and>
   rotateTetromino
     \<lparr>grid = createGrid, position = spawn, tetromino = TETROMINOS KT,
      gameOver = False, isPaused = True\<rparr> =
     Inr \<lparr>grid = createGrid, position = spawn, tetromino = TETROMINOS KT,
      gameOver = False, isPaused = True\<rparr> \<and>
   dropTetromino 0
     \<lparr>grid = createGrid, position = spawn, tetromino = TETROMINOS KT,
      gameOver = True, isPaused = False\<rparr> =
     Inr \<lparr>grid = createGrid, position = spawn, tetromino = TETROMINOS KT,
      gameOver = True, isPaused = False\<rparr>"
  using not_running_noop [of "\<lparr>grid = createGrid, position = spawn, tetromino = TETROMINOS KT,
      gameOver = False, isPaused = True\<rparr>" 1 0]
    not_running_noop [of "\<lparr>grid = createGrid, position = spawn, tetromino = TETROMINOS KT,
      gameOver = True, isPaused = False\<rparr>" 1 0]
  by simp

text \<open>
  Claim C1. In a running game with a grid of \<open>ROWS\<close> rows, \<open>y > 0\<close> and a collision one
  row further down, \<open>dropTetromino\<close> returns a state whose grid is built from the merged
  grid \<open>m\<close>: \<open>m\<close> is what \<open>merge\<close> returns at the current position, a grid of \<open>ROWS\<close> rows
  that holds the piece's cell under every filled cell of the piece inside the playfield and
  the cell of the old grid everywhere else; the new grid is the rows of \<open>m\<close> that contain a
  0, in their order, below one new row of zeros for each row of \<open>m\<close> without a 0. The piece
  is the one \<open>randomTetromino\<close> draws, one of the seven shapes, the position is
  \<open>(COLS div 2 - 1, 0)\<close>, and the game is still running: no collision check of the new
  piece enters the result, also when the new piece overlaps the new grid.
\<close>

theorem dropTetromino_lock:
  assumes running: "\<not> isPaused s" "\<not> gameOver s"
    and below: "0 < y (position s)"
    and hit: "isColliding (grid s) (tetromino s) \<lparr>x = x (position s), y = y (position s) + 1\<rparr>"
    and rows: "length (grid s) = ROWS"
    and draw: "k < length tetrominos"
  shows "\<exists>m s'. dropTetromino k s = Inr s' \<and>
           merge (grid s) (tetromino s) (position s) = Inr m \<and>
           length m = ROWS \<and>
           (\<forall>i j. cellAt m i j =
              (if inField i j \<and>
                  truthy (cellAt (tetromino s) (i - y (position s)) (j - x (position s)))
               then cellAt (tetromino s) (i - y (position s)) (j - x (position s))
               else cellAt (grid s) i j)) \<and>
           grid s' =
             replicate (length (filter (\<lambda>row. Some 0 \<notin> set row) m)) (replicate COLS (Some 0))
             @ filter (\<lambda>row. Some 0 \<in> set row) m \<and>
           tetromino s' = randomTetromino k \<and>
           randomTetromino k \<in> TETROMINOS ` {KI, KO, KT, KS, KZ, KJ, KL} \<and>
           position s' = \<lparr>x = int (COLS div 2) - 1, y = 0\<rparr> \<and>
           \<not> gameOver s' \<and> \<not> isPaused s'"
proof -
  have "\<exists>m. merge (grid s) (tetromino s) (position s) = Inr m"
  proof (rule merge_succeeds)
    fix r c assume "truthy (cellAt (tetromino s) r c)" "y (position s) + r < int ROWS"
    moreover from this(1) have "0 \<le> r" by (simp add: truthy_cellAt_iff)
    ultimately show "0 \<le> y (position s) + r \<and> y (position s) + r < int (length (grid s))"
      using below rows by simp
  qed
  then obtain m where ok: "merge (grid s) (tetromino s) (position s) = Inr m" by blast
  from merge_Inr(1) [OF ok] rows have len: "length m = ROWS" by simp
  have cells: "cellAt m i j =
      (if inField i j \<and> truthy (cellAt (tetromino s) (i - y (position s)) (j - x (position s)))
       then cellAt (tetromino s) (i - y (position s)) (j - x (position s))
       else cellAt (grid s) i j)" for i j
  proof -
    have "0 \<le> i" if "truthy (cellAt (tetromino s) (i - y (position s)) (j - x (position s)))"
    proof -
      from that have "0 \<le> i - y (position s)" by (simp add: truthy_cellAt_iff)
      with below show ?thesis by simp
    qed
    then show ?thesis
      unfolding merge_Inr(2) [OF ok] inField_def by auto
  qed
  from draw have "tetrominos ! k \<in> set tetrominos" by (rule nth_mem)
  also have "set tetrominos = {KI, KO, KT, KS, KZ, KJ, KL}"
    by (simp add: tetrominos_def)
  finally have "TETROMINOS (tetrominos ! k) \<in> TETROMINOS ` {KI, KO, KT, KS, KZ, KJ, KL}"
    by (rule imageI)
  then have shape: "randomTetromino k \<in> TETROMINOS ` {KI, KO, KT, KS, KZ, KJ, KL}"
    by (simp only: randomTetromino_def)
  define s' where "s' = s\<lparr>grid := newGrid (clearRows m), tetromino := randomTetromino k,
      position := \<lparr>x = int (COLS div 2) - 1, y = 0\<rparr>\<rparr>"
  from running below hit ok have drop: "dropTetromino k s = Inr s'"
    by (simp add: dropTetromino_def spawn_def s'_def)
  have "grid s' = newGrid (clearRows m)" "tetromino s' = randomTetromino k"
    "position s' = \<lparr>x = int (COLS div 2) - 1, y = 0\<rparr>" "\<not> gameOver s'" "\<not> isPaused s'"
    using running by (simp_all add: s'_def)
  with drop ok len cells shape clearRows_newGrid [OF len] show ?thesis
    by metis
qed

theorem dropTetromino_lock_witness:
  "dropTetromino 1
     \<lparr>grid = createGrid[18 := map Some [1, 0, 0, 0, 0, 0, 0, 0, 0, 0],
                        19 := map Some [1, 1, 1, 1, 0, 0, 0, 0, 1, 1]],
      position = \<lparr>x = 4, y = 19\<rparr>,
      tetromino = TETROMINOS KI, gameOver = False, isPaused = False\<rparr> =
   Inr \<lparr>grid = createGrid[19 := map Some [1, 0, 0, 0, 0, 0, 0, 0, 0, 0]],
        position = \<lparr>x = 4, y = 0\<rparr>,
        tetromino = TETROMINOS KO, gameOver = False, isPaused = False\<rparr> \<and>
   (\<exists>s'. dropTetromino 1
       \<lparr>grid = createGrid[2 := map Some [0, 0, 0, 0, 1, 0, 0, 0, 0, 0]],
        position = \<lparr>x = 4, y = 1\<rparr>,
        tetromino = TETROMINOS KI, gameOver = False, isPaused = False\<rparr> = Inr s' \<and>
     grid s' = createGrid[1 := map Some [0, 0, 0, 0, 1, 1, 1, 1, 0, 0],
                          2 := map Some [0, 0, 0, 0, 1, 0, 0, 0, 0, 0]] \<and>
     tetromino s' = TETROMINOS KO \<and> position s' = \<lparr>x = 4, y = 0\<rparr> \<and>
     \<not> gameOver s' \<and> \<not> isPaused s' \<and>
     isColliding (grid s') (tetromino s') (position s'))"
proof -
  let ?a = "\<lparr>grid = createGrid[18 := map Some [1, 0, 0, 0, 0, 0, 0, 0, 0, 0],
                        19 := map Some [1, 1, 1, 1, 0, 0, 0, 0, 1, 1]],
      position = \<lparr>x = 4, y = 19\<rparr>,
      tetromino = TETROMINOS KI, gameOver = False, isPaused = False\<rparr>"
  let ?ma = "createGrid[18 := map Some [1, 0, 0, 0, 0, 0, 0, 0, 0, 0],
                        19 := map Some [1, 1, 1, 1, 1, 1, 1, 1, 1, 1]]"
  let ?ga = "createGrid[19 := map Some [1, 0, 0, 0, 0, 0, 0, 0, 0, 0]]"
  let ?b = "\<lparr>grid = createGrid[2 := map Some [0, 0, 0, 0, 1, 0, 0, 0, 0, 0]],
        position = \<lparr>x = 4, y = 1\<rparr>,
        tetromino = TETROMINOS KI, gameOver = False, isPaused = False\<rparr>"
  let ?mb = "createGrid[1 := map Some [0, 0, 0, 0, 1, 1, 1, 1, 0, 0],
                        2 := map Some [0, 0, 0, 0, 1, 0, 0, 0, 0, 0]]"
  have draw: "1 < length tetrominos" and r: "randomTetromino 1 = TETROMINOS KO"
    by (simp_all add: randomTetromino_def tetrominos_def)
  have a: "\<not> isPaused ?a" "\<not> gameOver ?a" "0 < y (position ?a)"
    "isColliding (grid ?a) (tetromino ?a) \<lparr>x = x (position ?a), y = y (position ?a) + 1\<rparr>"
    "length (grid ?a) = ROWS"
    by code_simp+
  have ma: "merge (grid ?a) (tetromino ?a) (position ?a) = Inr ?ma"
    by code_simp
  have ca: "replicate (length (filter (\<lambda>row. Some 0 \<notin> set row) ?ma)) (replicate COLS (Some 0))
      @ filter (\<lambda>row. Some 0 \<in> set row) ?ma = ?ga"
    by code_simp
  from dropTetromino_lock [OF a draw] ma ca r
  have first: "dropTetromino 1 ?a =
      Inr \<lparr>grid = ?ga, position = \<lparr>x = 4, y = 0\<rparr>,
        tetromino = TETROMINOS KO, gameOver = False, isPaused = False\<rparr>"
    by (auto simp: COLS_def)
  have b: "\<not> isPaused ?b" "\<not> gameOver ?b" "0 < y (position ?b)"
    "isColliding (grid ?b) (tetromino ?b) \<lparr>x = x (position ?b), y = y (position ?b) + 1\<rparr>"
    "length (grid ?b) = ROWS"
    by code_simp+
  have mb: "merge (grid ?b) (tetromino ?b) (position ?b) = Inr ?mb"
    by code_simp
  have cb: "replicate (length (filter (\<lambda>row. Some 0 \<notin> set row) ?mb)) (replicate COLS (Some 0))
      @ filter (\<lambda>row. Some 0 \<in> set row) ?mb = ?mb"
    by code_simp
  have spawnHit: "isColliding ?mb (TETROMINOS KO) \<lparr>x = 4, y = 0\<rparr>"
    by code_simp
  from dropTetromino_lock [OF b draw] mb cb r
  have "\<exists>s'. dropTetromino 1 ?b = Inr s' \<and> grid s' = ?mb \<and> tetromino s' = TETROMINOS KO \<and>
      position s' = \<lparr>x = 4, y = 0\<rparr> \<and> \<not> gameOver s' \<and> \<not> isPaused s'"
    by (auto simp: COLS_def)
  with spawnHit have "\<exists>s'. dropTetromino 1 ?b = Inr s' \<and> grid s' = ?mb \<and>
      tetromino s' = TETROMINOS KO \<and> position s' = \<lparr>x = 4, y = 0\<rparr> \<and>
      \<not> gameOver s' \<and> \<not> isPaused s' \<and> isColliding (grid s') (tetromino s') (position s')"
    by auto
  with first show ?thesis by blast
qed

end
